theory Spec2Isabelle
  imports Complex_Main
begin

section \<open>JavaScript values used by the services\<close>

text \<open>
  A JavaScript number is an IEEE double: a finite value (always a rational), NaN or one
  of the two infinities. Minus zero equals zero in every comparison made here.
\<close>

datatype number = Finite rat | NaN | PosInfinity | NegInfinity

text \<open>\<open>!x\<close> on a value of type \<open>number | undefined\<close>: undefined, 0 and NaN are falsy.\<close>

fun falsy_number :: "number option \<Rightarrow> bool" where
  "falsy_number None = True"
| "falsy_number (Some (Finite r)) = (r = 0)"
| "falsy_number (Some NaN) = True"
| "falsy_number (Some PosInfinity) = False"
| "falsy_number (Some NegInfinity) = False"

text \<open>\<open>a >= b\<close> and \<open>a > b\<close> on numbers; every comparison with NaN is false.\<close>

fun number_ge :: "number \<Rightarrow> number \<Rightarrow> bool" where
  "number_ge NaN _ = False"
| "number_ge _ NaN = False"
| "number_ge PosInfinity _ = True"
| "number_ge _ NegInfinity = True"
| "number_ge (Finite a) (Finite b) = (b \<le> a)"
| "number_ge (Finite a) PosInfinity = False"
| "number_ge NegInfinity (Finite b) = False"
| "number_ge NegInfinity PosInfinity = False"

fun number_gt :: "number \<Rightarrow> number \<Rightarrow> bool" where
  "number_gt NaN _ = False"
| "number_gt _ NaN = False"
| "number_gt (Finite a) (Finite b) = (b < a)"
| "number_gt PosInfinity PosInfinity = False"
| "number_gt PosInfinity _ = True"
| "number_gt NegInfinity _ = False"
| "number_gt (Finite a) NegInfinity = True"
| "number_gt (Finite a) PosInfinity = False"

text \<open>\<open>x || 0\<close> on a value of type \<open>number | undefined\<close>.\<close>

definition or_zero :: "number option \<Rightarrow> number" where
  "or_zero x = (if falsy_number x then Finite 0 else the x)"

subsection \<open>Strings\<close>

text \<open>\<open>s.split(c)\<close> for a one-character separator: n separators give n + 1 pieces.\<close>

fun split :: "char \<Rightarrow> string \<Rightarrow> string list" where
  "split c [] = [[]]"
| "split c (x # xs) =
     (if x = c then [] # split c xs
      else (case split c xs of [] \<Rightarrow> [[x]] | p # ps \<Rightarrow> (x # p) # ps))"

text \<open>\<open>xs[i]\<close> on an array: undefined out of range.\<close>

fun at_index :: "'a list \<Rightarrow> nat \<Rightarrow> 'a option" where
  "at_index [] i = None"
| "at_index (x # xs) 0 = Some x"
| "at_index (x # xs) (Suc i) = at_index xs i"

definition is_digit :: "char \<Rightarrow> bool" where
  "is_digit c = (48 \<le> (of_char c :: nat) \<and> (of_char c :: nat) \<le> 57)"

definition digit_value :: "char \<Rightarrow> nat" where
  "digit_value c = of_char c - 48"

definition decimal_value :: "string \<Rightarrow> nat" where
  "decimal_value s = foldl (\<lambda>acc d. acc * 10 + digit_value d) 0 s"

text \<open>
  The double nearest to a natural number, ties going to the even significand: a number
  below \<open>2^53\<close> is exact; a larger one keeps its 53 leading bits, rounded by the bits
  dropped. \<open>shift_count n\<close> is the number of bits dropped.
\<close>

function shift_count :: "nat \<Rightarrow> nat" where
  "shift_count n = (if n < 2 ^ 53 then 0 else Suc (shift_count (n div 2)))"
  by pat_completeness auto
termination
  by (relation "measure id") auto

declare shift_count.simps [simp del]

definition round_double :: "nat \<Rightarrow> nat" where
  "round_double n =
     (let e = shift_count n; q = n div 2 ^ e; r = n mod 2 ^ e; half = 2 ^ e div 2
      in if e = 0 then n
         else if half < r \<or> (r = half \<and> odd q) then (q + 1) * 2 ^ e
         else q * 2 ^ e)"

text \<open>
  \<open>Number(s)\<close> on a string of decimal digits is the double nearest to the number the
  digits spell, infinite from \<open>2^1024\<close> on; the empty string is 0. (For more than 20
  significant digits the language lets an implementation drop the later digits before it
  rounds; the nearest double is what the engines give.) Every other string is NaN here;
  the further spellings JavaScript accepts (signs, exponents, radix prefixes, surrounding
  blanks, \<open>Infinity\<close>) do not occur in dotted numeric versions and are not modelled.
\<close>

definition Number :: "string \<Rightarrow> number" where
  "Number s =
     (if list_all is_digit s
      then (let v = round_double (decimal_value s)
            in if 2 ^ 1024 \<le> v then PosInfinity else Finite (of_nat v))
      else NaN)"

section \<open>Projects\<close>

text \<open>A discovered project, with the fields the services read.\<close>

record project_info =
  info_name :: string
  info_path :: string
  info_language :: string
  info_framework :: string

section \<open>Changelog service: update type\<close>

datatype update_type = Patch | Minor | Major

definition getUpdateType :: "string \<Rightarrow> string \<Rightarrow> update_type" where
  "getUpdateType current latest =
     (let c = map Number (split CHR ''.'' current);
          l = map Number (split CHR ''.'' latest)
      in if number_gt (or_zero (at_index l 0)) (or_zero (at_index c 0)) then Major
         else if number_gt (or_zero (at_index l 1)) (or_zero (at_index c 1)) then Minor
         else Patch)"

text \<open>
  The vocabulary of the claim about versions: a dotted numeric version is a string whose
  pieces between dots are non-empty digit strings; its components are their values, a
  missing component counting as 0; versions are ordered component by component.
\<close>

definition dotted_numeric :: "string \<Rightarrow> bool" where
  "dotted_numeric s = list_all (\<lambda>p. p \<noteq> [] \<and> list_all is_digit p) (split CHR ''.'' s)"

definition components :: "string \<Rightarrow> nat list" where
  "components s = map decimal_value (split CHR ''.'' s)"

definition component :: "string \<Rightarrow> nat \<Rightarrow> nat" where
  "component s i = (case at_index (components s) i of None \<Rightarrow> 0 | Some n \<Rightarrow> n)"

fun version_less :: "nat list \<Rightarrow> nat list \<Rightarrow> bool" where
  "version_less [] [] = False"
| "version_less [] (y # ys) = (0 < y \<or> version_less [] ys)"
| "version_less (x # xs) [] = False"
| "version_less (x # xs) (y # ys) = (x < y \<or> (x = y \<and> version_less xs ys))"

section \<open>Vulnerability service: severity\<close>

datatype severity = Critical | High | Moderate | Low

definition mapSeverity :: "number option \<Rightarrow> severity" where
  "mapSeverity score =
     (if falsy_number score then Moderate
      else if number_ge (the score) (Finite 9) then Critical
      else if number_ge (the score) (Finite 7) then High
      else if number_ge (the score) (Finite 4) then Moderate
      else Low)"

section \<open>Vulnerability service: batched queries\<close>

record package =
  package_name :: string
  package_version :: string

record osv_query =
  query_name :: string
  query_ecosystem :: string
  query_version :: string

text \<open>
  An advisory as the index returns it, with the fields the service reads: the score of
  each severity entry, the events of each range of each affected entry (an event may
  carry a \<open>fixed\<close> version), the url of each reference. An absent array reads like an
  empty one under \<open>?.[0]\<close>.
\<close>

record osv_event =
  event_fixed :: "string option"

record advisory =
  adv_id :: string
  adv_summary :: "string option"
  adv_details :: "string option"
  adv_severity :: "number option list"
  adv_affected :: "osv_event list list list"
  adv_references :: "string option list"
  adv_published :: "string option"

record OsvVulnerability =
  vuln_id :: string
  vuln_summary :: string
  vuln_severity :: severity
  vuln_package :: string
  vuln_ecosystem :: string
  vuln_affectedRange :: string
  vuln_fixedVersion :: "string option"
  vuln_url :: string
  vuln_published :: string

text \<open>A string or undefined is truthy when it is a non-empty string.\<close>

fun truthy :: "string option \<Rightarrow> bool" where
  "truthy None = False"
| "truthy (Some s) = (s \<noteq> [])"

text \<open>\<open>xs?.[0]\<close> followed by an optional field: undefined when there is no first element.\<close>

fun first_of :: "'a option list \<Rightarrow> 'a option" where
  "first_of [] = None"
| "first_of (x # _) = x"

text \<open>\<open>xs.slice(a, b)\<close> for \<open>0 \<le> a \<le> b\<close>.\<close>

definition slice :: "nat \<Rightarrow> nat \<Rightarrow> 'a list \<Rightarrow> 'a list" where
  "slice a b xs = take (b - a) (drop a xs)"

definition fixed_version :: "advisory \<Rightarrow> string option" where
  "fixed_version vuln =
     (case adv_affected vuln of
        [] \<Rightarrow> None
      | ranges # _ \<Rightarrow>
          (case ranges of
             [] \<Rightarrow> None
           | events # _ \<Rightarrow>
               (case find (\<lambda>e. truthy (event_fixed e)) events of
                  None \<Rightarrow> None
                | Some fixedRange \<Rightarrow> event_fixed fixedRange)))"

definition to_vulnerability :: "string \<Rightarrow> package \<Rightarrow> advisory \<Rightarrow> OsvVulnerability" where
  "to_vulnerability ecosystem pkg vuln =
     (let cvssScore = first_of (adv_severity vuln)
      in \<lparr> vuln_id = adv_id vuln,
           vuln_summary =
             (if truthy (adv_summary vuln) then the (adv_summary vuln)
              else if truthy (map_option (take 200) (adv_details vuln))
                then take 200 (the (adv_details vuln))
              else ''No description''),
           vuln_severity = mapSeverity cvssScore,
           vuln_package = package_name pkg,
           vuln_ecosystem = ecosystem,
           vuln_affectedRange = package_version pkg @ '' (installed)'',
           vuln_fixedVersion = fixed_version vuln,
           vuln_url =
             (if truthy (first_of (adv_references vuln)) then the (first_of (adv_references vuln))
              else ''https://osv.dev/vulnerability/'' @ adv_id vuln),
           vuln_published =
             (if truthy (adv_published vuln) then the (adv_published vuln) else []) \<rparr>)"

text \<open>
  What one request to the index comes to. \<open>Failed\<close>: the fetch rejects (network error
  or the 15 s timeout) or the body is not the JSON expected, so that the \<open>try\<close> block
  throws before any result is read. \<open>NotOk\<close>: a response whose \<open>ok\<close> is false.
  \<open>Results\<close>: the \<open>results\<close> array, each entry with its optional \<open>vulns\<close>.
\<close>

datatype osv_response = Failed | NotOk | Results "advisory list option list"

definition advisories :: "advisory list option \<Rightarrow> advisory list" where
  "advisories r = (case r of None \<Rightarrow> [] | Some vs \<Rightarrow> vs)"

text \<open>
  The inner loop over \<open>data.results\<close>, from index \<open>j\<close>. An entry without advisories is
  passed over. Otherwise the package is \<open>packages[i + j]\<close>; when there is none, reading
  its name throws, the \<open>catch\<close> of the batch takes over and the rest of the batch is
  dropped, what was pushed before staying in \<open>vulns\<close>.
\<close>

fun results_loop ::
  "package list \<Rightarrow> string \<Rightarrow> nat \<Rightarrow> advisory list option list \<Rightarrow> nat \<Rightarrow>
   OsvVulnerability list \<Rightarrow> OsvVulnerability list" where
  "results_loop packages ecosystem i [] j vulns = vulns"
| "results_loop packages ecosystem i (result # rest) j vulns =
     (if length (advisories result) = 0
      then results_loop packages ecosystem i rest (Suc j) vulns
      else (case at_index packages (i + j) of
              None \<Rightarrow> vulns
            | Some pkg \<Rightarrow>
                results_loop packages ecosystem i rest (Suc j)
                  (vulns @ map (to_vulnerability ecosystem pkg) (advisories result))))"

text \<open>
  The outer loop, \<open>i\<close> advancing by 100. The index answers the \<open>k\<close>-th request (counted
  from 0) for a batch with \<open>fetch k batch\<close>. The state is the list of batches requested
  so far and \<open>vulns\<close>.
\<close>

function batch_loop ::
  "(nat \<Rightarrow> osv_query list \<Rightarrow> osv_response) \<Rightarrow> package list \<Rightarrow> string \<Rightarrow> osv_query list \<Rightarrow>
   nat \<Rightarrow> osv_query list list \<times> OsvVulnerability list \<Rightarrow>
   osv_query list list \<times> OsvVulnerability list" where
  "batch_loop fetch packages ecosystem queries i (sent, vulns) =
     (if i < length queries then
        let batch = slice i (i + 100) queries;
            vulns' = (case fetch (length sent) batch of
                        Failed \<Rightarrow> vulns
                      | NotOk \<Rightarrow> vulns
                      | Results results \<Rightarrow> results_loop packages ecosystem i results 0 vulns)
        in batch_loop fetch packages ecosystem queries (i + 100) (sent @ [batch], vulns')
      else (sent, vulns))"
  by pat_completeness auto
termination
  by (relation "measure (\<lambda>(fetch, packages, ecosystem, queries, i, st). length queries - i)") auto

declare batch_loop.simps [simp del]

text \<open>
  \<open>queryOsv\<close>: the queries are \<open>packages.map(...)\<close>; the result is the batches
  requested, in order, and the vulnerabilities returned.
\<close>

definition package_queries :: "string \<Rightarrow> package list \<Rightarrow> osv_query list" where
  "package_queries ecosystem packages =
     map (\<lambda>p. \<lparr> query_name = package_name p, query_ecosystem = ecosystem,
                query_version = package_version p \<rparr>) packages"

definition queryOsv ::
  "(nat \<Rightarrow> osv_query list \<Rightarrow> osv_response) \<Rightarrow> package list \<Rightarrow> string \<Rightarrow>
   osv_query list list \<times> OsvVulnerability list" where
  "queryOsv fetch packages ecosystem =
     (let queries = package_queries ecosystem packages
      in batch_loop fetch packages ecosystem queries 0 ([], []))"

text \<open>
  The vocabulary of the claims about batches: the \<open>k\<close>-th batch of a list, and the
  vulnerabilities that the results of a batch starting at \<open>i\<close> stand for when the
  advisories at index \<open>j\<close> go to the package at index \<open>i + j\<close>, up to the first entry
  with advisories and no such package.
\<close>

definition batch_of :: "'a list \<Rightarrow> nat \<Rightarrow> 'a list" where
  "batch_of xs k = take 100 (drop (100 * k) xs)"

definition batch_count :: "nat \<Rightarrow> nat" where
  "batch_count n = (n + 99) div 100"

definition attributed ::
  "package list \<Rightarrow> string \<Rightarrow> nat \<Rightarrow> advisory list option list \<Rightarrow> OsvVulnerability list" where
  "attributed packages ecosystem i results =
     concat (map (\<lambda>(j, r). map (to_vulnerability ecosystem (packages ! (i + j))) (advisories r))
       (takeWhile (\<lambda>(j, r). advisories r = [] \<or> i + j < length packages)
          (enumerate 0 results)))"

definition batch_vulns ::
  "(nat \<Rightarrow> osv_query list \<Rightarrow> osv_response) \<Rightarrow> package list \<Rightarrow> string \<Rightarrow> osv_query list \<Rightarrow>
   nat \<Rightarrow> OsvVulnerability list" where
  "batch_vulns fetch packages ecosystem queries k =
     (case fetch k (batch_of queries k) of
        Failed \<Rightarrow> []
      | NotOk \<Rightarrow> []
      | Results results \<Rightarrow> attributed packages ecosystem (100 * k) results)"

section \<open>The library of the language\<close>

subsection \<open>String operations\<close>

text \<open>\<open>s.startsWith(p)\<close>, \<open>s.endsWith(p)\<close> and \<open>s.includes(p)\<close>.\<close>

fun startsWith :: "string \<Rightarrow> string \<Rightarrow> bool" where
  "startsWith s [] = True"
| "startsWith [] (p # ps) = False"
| "startsWith (x # xs) (p # ps) = (x = p \<and> startsWith xs ps)"

definition endsWith :: "string \<Rightarrow> string \<Rightarrow> bool" where
  "endsWith s p = startsWith (rev s) (rev p)"

fun string_includes :: "string \<Rightarrow> string \<Rightarrow> bool" where
  "string_includes [] p = (p = [])"
| "string_includes (x # xs) p = (startsWith (x # xs) p \<or> string_includes xs p)"

text \<open>\<open>xs.join(sep)\<close>.\<close>

fun join :: "string \<Rightarrow> string list \<Rightarrow> string" where
  "join sep [] = []"
| "join sep [x] = x"
| "join sep (x # y # ys) = x @ sep @ join sep (y # ys)"

text \<open>A natural number in a template string: its decimal digits.\<close>

function show_nat :: "nat \<Rightarrow> string" where
  "show_nat n =
     (if n < 10 then [char_of (48 + n)] else show_nat (n div 10) @ [char_of (48 + n mod 10)])"
  by pat_completeness auto
termination
  by (relation "measure id") auto

declare show_nat.simps [simp del]

text \<open>\<open>x || ""\<close> on a string or undefined.\<close>

definition or_empty :: "string option \<Rightarrow> string" where
  "or_empty x = (if truthy x then the x else [])"

subsection \<open>Regular expressions\<close>

text \<open>
  The patterns of the migration rules are built from literal text, \<open>\s*\<close>, \<open>\s+\<close>, an
  optional part, sequence and alternative.
\<close>

datatype regex = Lit string | SpaceStar | SpacePlus | Opt regex | Seq regex regex | Alt regex regex

text \<open>\<open>regex.source\<close>: the text of the pattern, \<open>$\<close> and \<open>/\<close> escaped in literal text.\<close>

definition escape_char :: "char \<Rightarrow> string" where
  "escape_char c = (if c = CHR ''$'' \<or> c = CHR ''/'' then [CHR 0x5C, c] else [c])"

fun regex_source :: "regex \<Rightarrow> string" where
  "regex_source (Lit p) = concat (map escape_char p)"
| "regex_source SpaceStar = [CHR 0x5C] @ ''s*''"
| "regex_source SpacePlus = [CHR 0x5C] @ ''s+''"
| "regex_source (Opt r) = regex_source r @ ''?''"
| "regex_source (Seq a b) = regex_source a @ regex_source b"
| "regex_source (Alt a b) = regex_source a @ ''|'' @ regex_source b"

subsection \<open>The functions that depend on the tables of characters\<close>

text \<open>
  Three functions of the library rest on the character tables of the language (case
  mapping, white space) and are parameters of the services, gathered in a record:
  \<open>s.toLowerCase()\<close>; \<open>s.split(/\s+/)\<close>; and the search of the regular-expression
  engine, \<open>regex_search rt r s i\<close> being the index where the first match of \<open>r\<close> in \<open>s\<close>
  at or after the index \<open>i\<close> ends, when there is one.
\<close>

record runtime =
  toLowerCase :: "string \<Rightarrow> string"
  split_whitespace :: "string \<Rightarrow> string list"
  regex_search :: "regex \<Rightarrow> string \<Rightarrow> nat \<Rightarrow> nat option"

text \<open>
  \<open>regex.test(s)\<close> of a regular expression with the flag \<open>g\<close>: the search starts at
  \<open>lastIndex\<close>; a match leaves \<open>lastIndex\<close> at its end, a failure leaves it at 0.
\<close>

definition regex_test :: "runtime \<Rightarrow> regex \<Rightarrow> nat \<Rightarrow> string \<Rightarrow> bool \<times> nat" where
  "regex_test rt r lastIndex s =
     (if lastIndex > length s then (False, 0)
      else (case regex_search rt r s lastIndex of
              None \<Rightarrow> (False, 0)
            | Some e \<Rightarrow> (True, e)))"

subsection \<open>The library on strings of code units below 256\<close>

text \<open>
  \<open>latin1\<close> is the library for the strings whose characters are code units below 256.
  There the upper-case letters are A to Z and the code units 192 to 222 but 215, each 32
  below its lower-case letter, and white space is the blank, the code units 9 to 13 and
  the no-break space 160.
\<close>

definition to_lower_char :: "char \<Rightarrow> char" where
  "to_lower_char c =
     (let n = (of_char c :: nat)
      in if (65 \<le> n \<and> n \<le> 90) \<or> (192 \<le> n \<and> n \<le> 222 \<and> n \<noteq> 215) then char_of (n + 32)
         else c)"

definition is_space :: "char \<Rightarrow> bool" where
  "is_space c =
     (let n = (of_char c :: nat) in n = 32 \<or> (9 \<le> n \<and> n \<le> 13) \<or> n = 160)"

text \<open>\<open>s.split(/\s+/)\<close>: the pieces between maximal runs of white space.\<close>

function split_spaces :: "string \<Rightarrow> string list" where
  "split_spaces [] = [[]]"
| "split_spaces (x # xs) =
     (if is_space x then [] # split_spaces (dropWhile is_space xs)
      else (case split_spaces xs of [] \<Rightarrow> [[x]] | p # ps \<Rightarrow> (x # p) # ps))"
  by pat_completeness auto
termination
  by (relation "measure length") (auto simp: less_Suc_eq_le length_dropWhile_le)

text \<open>
  \<open>regex_match r s\<close> lists what is left of \<open>s\<close> after each way \<open>r\<close> matches a prefix of
  it, in the order the backtracking matcher tries them (alternatives from the left,
  repetitions longest first).
\<close>

fun regex_match :: "regex \<Rightarrow> string \<Rightarrow> string list" where
  "regex_match (Lit p) s = (if startsWith s p then [drop (length p) s] else [])"
| "regex_match SpaceStar s = map (\<lambda>k. drop k s) (rev [0..<Suc (length (takeWhile is_space s))])"
| "regex_match SpacePlus s = map (\<lambda>k. drop k s) (rev [1..<Suc (length (takeWhile is_space s))])"
| "regex_match (Opt r) s = regex_match r s @ [s]"
| "regex_match (Seq a b) s = concat (map (regex_match b) (regex_match a s))"
| "regex_match (Alt a b) s = regex_match a s @ regex_match b s"

text \<open>
  The search for the first match in \<open>s\<close>, which starts at index \<open>k\<close> of the line: the
  index where the match ends.
\<close>

fun search_from :: "regex \<Rightarrow> string \<Rightarrow> nat \<Rightarrow> nat option" where
  "search_from r [] k = (case regex_match r [] of [] \<Rightarrow> None | rest # _ \<Rightarrow> Some k)"
| "search_from r (x # xs) k =
     (case regex_match r (x # xs) of
        [] \<Rightarrow> search_from r xs (Suc k)
      | rest # _ \<Rightarrow> Some (k + (length (x # xs) - length rest)))"

definition latin1 :: runtime where
  "latin1 = \<lparr> toLowerCase = map to_lower_char,
              split_whitespace = split_spaces,
              regex_search = (\<lambda>r s i. search_from r (drop i s) i) \<rparr>"

section \<open>Documentation service\<close>

subsection \<open>Truncation and query filter\<close>

definition truncateDoc :: "string \<Rightarrow> nat \<Rightarrow> string" where
  "truncateDoc text maxLines =
     (let lines = split CHR 0x0A text
      in if length lines \<le> maxLines then text
         else join [CHR 0x0A] (slice 0 maxLines lines)
              @ [CHR 0x0A, CHR 0x0A] @ ''... (truncated, ''
              @ show_nat (length lines - maxLines) @ '' more lines)'')"

text \<open>
  The keywords of a query: \<open>query.toLowerCase().split(/\s+/).filter(Boolean)\<close>.
\<close>

definition keywords_of :: "runtime \<Rightarrow> string \<Rightarrow> string list" where
  "keywords_of rt query = filter (\<lambda>kw. kw \<noteq> []) (split_whitespace rt (toLowerCase rt query))"

text \<open>
  The first loop of \<open>filterByQuery\<close>: for every line \<open>i\<close> holding a keyword, the line
  numbers from \<open>max 0 (i - contextLines)\<close> to \<open>min (length - 1) (i + contextLines)\<close> enter
  the set. The set is a list without repetition, in the order of insertion; the
  subtraction on naturals stops at 0 as \<open>Math.max(0, _)\<close> does.
\<close>

definition lines_around :: "nat \<Rightarrow> nat \<Rightarrow> nat \<Rightarrow> nat list" where
  "lines_around n contextLines i = [i - contextLines ..< Suc (min (n - 1) (i + contextLines))]"

fun match_loop ::
  "runtime \<Rightarrow> string list \<Rightarrow> string list \<Rightarrow> nat \<Rightarrow> nat list \<Rightarrow> nat list \<Rightarrow> nat list" where
  "match_loop rt lines keywords contextLines [] matched = matched"
| "match_loop rt lines keywords contextLines (i # rest) matched =
     (let lower = toLowerCase rt (lines ! i)
      in if list_ex (\<lambda>kw. string_includes lower kw) keywords
         then match_loop rt lines keywords contextLines rest
                (fold List.insert (lines_around (length lines) contextLines i) matched)
         else match_loop rt lines keywords contextLines rest matched)"

text \<open>
  The second loop: the sorted line numbers, with the marker line before every run that
  does not continue the last line pushed (\<open>lastLine\<close> starts at \<open>-2\<close>).
\<close>

fun emit_loop :: "string list \<Rightarrow> nat list \<Rightarrow> int \<Rightarrow> string list \<Rightarrow> string list" where
  "emit_loop lines [] lastLine result = result"
| "emit_loop lines (n # rest) lastLine result =
     emit_loop lines rest (int n)
       ((if int n > lastLine + 1 then result @ [[CHR 0x0A] @ ''...'' @ [CHR 0x0A]] else result)
        @ [lines ! n])"

definition filterByQuery :: "runtime \<Rightarrow> string \<Rightarrow> string option \<Rightarrow> nat \<Rightarrow> string" where
  "filterByQuery rt text query contextLines =
     (if \<not> truthy query \<or> text = [] then text
      else let lines = split CHR 0x0A text;
               keywords = keywords_of rt (the query);
               matchedLineNums = match_loop rt lines keywords contextLines [0..<length lines] []
           in if length matchedLineNums = 0 then text
              else join [CHR 0x0A] (emit_loop lines (sort matchedLineNums) (- 2) []))"

text \<open>
  The expression every section goes through:
  \<open>truncateDoc(query ? filterByQuery(text, query) : text, maxLines)\<close>.
\<close>

definition doc_section :: "runtime \<Rightarrow> string option \<Rightarrow> string \<Rightarrow> nat \<Rightarrow> string" where
  "doc_section rt query text maxLines =
     truncateDoc (if truthy query then filterByQuery rt text query 5 else text) maxLines"

text \<open>
  The condition of the claim on the filter: no line, in lower case, holds a keyword of
  the query.
\<close>

definition no_keyword_match :: "runtime \<Rightarrow> string \<Rightarrow> string \<Rightarrow> bool" where
  "no_keyword_match rt text query =
     list_all (\<lambda>line. list_all (\<lambda>kw. \<not> string_includes (toLowerCase rt line) kw)
                        (keywords_of rt query))
       (split CHR 0x0A text)"

subsection \<open>Repository of a package\<close>

text \<open>
  \<open>extractGitHubRepo\<close>. The four \<open>replace\<close> calls act on a prefix or a suffix of the
  url. The pattern \<open>/github\.com[/:]([\w.-]+)\/([\w.-]+)/\<close> is tried at every position
  from the left: the text \<open>github.com\<close>, a slash or a colon, the longest run of name
  characters, a slash, and the longest run of name characters, both runs non-empty.
  A shorter first run cannot help: the character after it is a name character, not a slash.
\<close>

definition replace_prefix :: "string \<Rightarrow> string \<Rightarrow> string \<Rightarrow> string" where
  "replace_prefix p r s = (if startsWith s p then r @ drop (length p) s else s)"

definition remove_suffix :: "string \<Rightarrow> string \<Rightarrow> string" where
  "remove_suffix p s = (if endsWith s p then take (length s - length p) s else s)"

definition is_name_char :: "char \<Rightarrow> bool" where
  "is_name_char c =
     (let n = (of_char c :: nat)
      in (48 \<le> n \<and> n \<le> 57) \<or> (65 \<le> n \<and> n \<le> 90) \<or> (97 \<le> n \<and> n \<le> 122)
         \<or> c = CHR ''_'' \<or> c = CHR ''.'' \<or> c = CHR ''-'')"

definition match_repo_at :: "string \<Rightarrow> (string \<times> string) option" where
  "match_repo_at s =
     (if startsWith s ''github.com'' then
        (case drop 10 s of
           [] \<Rightarrow> None
         | c # rest \<Rightarrow>
             if c = CHR ''/'' \<or> c = CHR '':'' then
               (let owner = takeWhile is_name_char rest
                in if owner = [] then None
                   else (case dropWhile is_name_char rest of
                           [] \<Rightarrow> None
                         | d # rest' \<Rightarrow>
                             if d = CHR ''/'' then
                               (let repo = takeWhile is_name_char rest'
                                in if repo = [] then None else Some (owner, repo))
                             else None))
             else None)
      else None)"

fun match_repo :: "string \<Rightarrow> (string \<times> string) option" where
  "match_repo [] = match_repo_at []"
| "match_repo (x # xs) =
     (case match_repo_at (x # xs) of Some m \<Rightarrow> Some m | None \<Rightarrow> match_repo xs)"

definition extractGitHubRepo :: "string \<Rightarrow> (string \<times> string) option" where
  "extractGitHubRepo repoUrl =
     (let cleaned =
            replace_prefix ''git://github.com/'' ''https://github.com/''
              (replace_prefix ''ssh://git@github.com/'' ''https://github.com/''
                 (remove_suffix ''.git'' (replace_prefix ''git+'' [] repoUrl)))
      in match_repo cleaned)"

subsection \<open>Fetching\<close>

text \<open>
  The world outside: \<open>fetchUrl\<close> gives the body of a url, or nothing when the request
  fails, times out or is answered with a response that is not OK; \<open>JSON_parse\<close> reads
  the registry's body as the declared type \<open>NpmRegistryData\<close>, or throws (nothing);
  \<open>encodeURIComponent\<close> is the library's.
\<close>

record NpmRegistryData =
  npm_name :: string
  npm_latest :: "string option"
  npm_description :: "string option"
  npm_homepage :: "string option"
  npm_repository_url :: "string option"
  npm_readme :: "string option"

record world =
  fetchUrl :: "string \<Rightarrow> string option"
  JSON_parse :: "string \<Rightarrow> NpmRegistryData option"
  encodeURIComponent :: "string \<Rightarrow> string"

record DocResult =
  doc_package :: string
  doc_version :: string
  doc_description :: string
  doc_repository :: string
  doc_readme :: string
  doc_changelog :: string
  doc_migrationGuide :: string
  doc_homepage :: string

record doc_opts =
  opts_readme :: "bool option"
  opts_changelog :: "bool option"
  opts_migration :: "bool option"

datatype doc_error = PackageNotFound | InvalidNpmData | TypeError

text \<open>\<open>fetchFirstFound\<close>: all paths are fetched; the first body longer than 50 wins.\<close>

definition raw_url :: "string \<Rightarrow> string \<Rightarrow> string \<Rightarrow> string" where
  "raw_url owner repo p =
     ''https://raw.githubusercontent.com/'' @ owner @ ''/'' @ repo @ ''/HEAD/'' @ p"

definition fetchFirstFound :: "world \<Rightarrow> string \<Rightarrow> string \<Rightarrow> string list \<Rightarrow> string" where
  "fetchFirstFound w owner repo paths =
     (let results = map (\<lambda>p. fetchUrl w (raw_url owner repo p)) paths
      in case find (\<lambda>r. truthy r \<and> length (the r) > 50) results of
           None \<Rightarrow> []
         | Some r \<Rightarrow> the r)"

definition getMonorepoPaths :: "string \<Rightarrow> string list \<Rightarrow> string list" where
  "getMonorepoPaths baseName files =
     files @ map (\<lambda>f. ''packages/'' @ baseName @ ''/'' @ f) files"

text \<open>
  \<open>MIGRATION_PATHS\<close> is an object literal. Reading a key gives the own property when
  there is one; otherwise the property of that name inherited from \<open>Object.prototype\<close>
  (a function, or the prototype itself for \<open>__proto__\<close>) when there is one; otherwise
  undefined.
\<close>

definition MIGRATION_PATHS :: "(string \<times> string list) list" where
  "MIGRATION_PATHS =
     [(''svelte'', [''documentation/docs/07-misc/07-v5-migration-guide.md'',
                    ''packages/svelte/CHANGELOG.md'']),
      (''@sveltejs/kit'', [''documentation/docs/25-build-and-deploy/99-migration-guide.md'',
                           ''packages/kit/CHANGELOG.md'']),
      (''next'', [''docs/01-app/02-building-your-application/10-upgrading/01-version-15.mdx'',
                  ''docs/01-app/02-building-your-application/10-upgrading/02-version-14.mdx'']),
      (''tailwindcss'', [''packages/tailwindcss/CHANGELOG.md'', ''CHANGELOG.md'']),
      (''vite'', [''packages/vite/CHANGELOG.md'', ''CHANGELOG.md'']),
      (''better-auth'', [''CHANGELOG.md'']),
      (''@supabase/supabase-js'', [''CHANGELOG.md'']),
      (''stripe'', [''CHANGELOG.md'', ''UPGRADING.md'']),
      (''react'', [''CHANGELOG.md'']),
      (''vue'', [''CHANGELOG.md'']),
      (''express'', [''History.md''])]"

definition object_prototype_keys :: "string list" where
  "object_prototype_keys =
     [''constructor'', ''__defineGetter__'', ''__defineSetter__'', ''hasOwnProperty'',
      ''__lookupGetter__'', ''__lookupSetter__'', ''isPrototypeOf'', ''propertyIsEnumerable'',
      ''toString'', ''valueOf'', ''__proto__'', ''toLocaleString'']"

datatype 'a property = Undefined | Own 'a | Inherited

definition get_property :: "(string \<times> 'a) list \<Rightarrow> string \<Rightarrow> 'a property" where
  "get_property obj key =
     (case map_of obj key of
        Some v \<Rightarrow> Own v
      | None \<Rightarrow> if key \<in> set object_prototype_keys then Inherited else Undefined)"

text \<open>
  The base name of a package: \<open>pkg.startsWith("@") ? pkg.split("/")[1] : pkg\<close>. A
  scoped name without a slash gives undefined, which reads \<open>undefined\<close> in a template
  string and as a key.
\<close>

definition base_name :: "string \<Rightarrow> string" where
  "base_name pkg =
     (if startsWith pkg ''@''
      then (case at_index (split CHR ''/'' pkg) 1 of None \<Rightarrow> ''undefined'' | Some b \<Rightarrow> b)
      else pkg)"

definition changelog_files :: "string list" where
  "changelog_files = [''CHANGELOG.md'', ''changelog.md'', ''CHANGES.md'', ''HISTORY.md'', ''History.md'']"

definition readme_files :: "string list" where
  "readme_files = [''README.md'', ''readme.md'', ''Readme.md'']"

definition migration_files :: "string list" where
  "migration_files =
     [''MIGRATION.md'', ''UPGRADING.md'', ''UPGRADE.md'', ''migration.md'', ''upgrading.md'',
      ''docs/migration.md'', ''docs/upgrading.md'', ''docs/MIGRATION.md'']"

text \<open>Step 3: the readme, from the registry or from the repository.\<close>

definition fetch_readme ::
  "runtime \<Rightarrow> world \<Rightarrow> NpmRegistryData \<Rightarrow> (string \<times> string) option \<Rightarrow> string option \<Rightarrow> DocResult \<Rightarrow> DocResult" where
  "fetch_readme rt w npmJson gh query result =
     (let readme = or_empty (npm_readme npmJson);
          readme = (if (readme = [] \<or> length readme < 100) \<and> gh \<noteq> None
                    then fetchFirstFound w (fst (the gh)) (snd (the gh)) readme_files
                    else readme)
      in if readme \<noteq> [] then result\<lparr> doc_readme := doc_section rt query readme 300 \<rparr> else result)"

text \<open>Step 4: the changelog, from the repository.\<close>

definition fetch_changelog ::
  "runtime \<Rightarrow> world \<Rightarrow> string \<Rightarrow> string \<times> string \<Rightarrow> string option \<Rightarrow> DocResult \<Rightarrow> DocResult" where
  "fetch_changelog rt w pkg gh query result =
     (let baseName = base_name pkg;
          changelogPaths = getMonorepoPaths baseName changelog_files;
          changelog = fetchFirstFound w (fst gh) (snd gh) changelogPaths
      in if changelog \<noteq> [] then result\<lparr> doc_changelog := doc_section rt query changelog 200 \<rparr>
         else result)"

text \<open>
  Step 5: the migration guide. \<open>knownPaths\<close> is
  \<open>MIGRATION_PATHS[pkg] || MIGRATION_PATHS[baseName]\<close>; an inherited property is truthy
  and is not an array, so that \<open>paths.map\<close> in \<open>fetchFirstFound\<close> throws a TypeError.
\<close>

definition fetch_migration ::
  "runtime \<Rightarrow> world \<Rightarrow> string \<Rightarrow> string \<times> string \<Rightarrow> string option \<Rightarrow> DocResult \<Rightarrow> doc_error + DocResult" where
  "fetch_migration rt w pkg gh query result =
     (let baseName = base_name pkg;
          knownPaths = (case get_property MIGRATION_PATHS pkg of
                          Undefined \<Rightarrow> get_property MIGRATION_PATHS baseName
                        | p \<Rightarrow> p)
      in case knownPaths of
           Inherited \<Rightarrow> Inl TypeError
         | _ \<Rightarrow>
           (let result =
                  (case knownPaths of
                     Own paths \<Rightarrow>
                       (let guide = fetchFirstFound w (fst gh) (snd gh) paths
                        in if guide \<noteq> []
                           then result\<lparr> doc_migrationGuide := doc_section rt query guide 300 \<rparr>
                           else result)
                   | _ \<Rightarrow> result)
            in if doc_migrationGuide result = [] then
                 (let genericPaths = getMonorepoPaths baseName migration_files;
                      guide = fetchFirstFound w (fst gh) (snd gh) genericPaths
                  in if guide \<noteq> []
                     then Inr (result\<lparr> doc_migrationGuide := doc_section rt query guide 300 \<rparr>)
                     else Inr result)
               else Inr result))"

definition fetchLibraryDocs ::
  "runtime \<Rightarrow> world \<Rightarrow> string \<Rightarrow> string option \<Rightarrow> doc_opts \<Rightarrow> doc_error + DocResult" where
  "fetchLibraryDocs rt w pkg query opts =
     (let result = \<lparr> doc_package = pkg, doc_version = [], doc_description = [],
                     doc_repository = [], doc_readme = [], doc_changelog = [],
                     doc_migrationGuide = [], doc_homepage = [] \<rparr>;
          npmData = fetchUrl w (''https://registry.npmjs.org/'' @ encodeURIComponent w pkg)
      in if \<not> truthy npmData then Inl PackageNotFound
         else case JSON_parse w (the npmData) of
           None \<Rightarrow> Inl InvalidNpmData
         | Some npmJson \<Rightarrow>
           (let result = result\<lparr> doc_version := or_empty (npm_latest npmJson),
                                  doc_description := or_empty (npm_description npmJson),
                                  doc_homepage := or_empty (npm_homepage npmJson) \<rparr>;
                repoUrl = or_empty (npm_repository_url npmJson);
                gh = extractGitHubRepo repoUrl;
                result = (case gh of
                            None \<Rightarrow> result
                          | Some (owner, repo) \<Rightarrow>
                              result\<lparr> doc_repository := ''https://github.com/'' @ owner @ ''/'' @ repo \<rparr>);
                result = (if opts_readme opts \<noteq> Some False
                          then fetch_readme rt w npmJson gh query result else result);
                result = (if opts_changelog opts \<noteq> Some False \<and> gh \<noteq> None
                          then fetch_changelog rt w pkg (the gh) query result else result)
            in if opts_migration opts \<noteq> Some False \<and> gh \<noteq> None
               then fetch_migration rt w pkg (the gh) query result
               else Inr result))"

text \<open>
  Sample inputs of the documentation service: a changelog of 201 lines, a world whose
  repository holds it, registry data for a package with a repository, and an empty result.
\<close>

definition long_changelog :: string where
  "long_changelog = concat (replicate 200 (''fix'' @ [CHR 0x0A])) @ ''fix''"

definition sample_registry :: NpmRegistryData where
  "sample_registry = \<lparr> npm_name = ''pkg'', npm_latest = Some ''1.2.3'',
     npm_description = Some ''A package'', npm_homepage = None,
     npm_repository_url = Some ''git+https://github.com/acme/pkg.git'', npm_readme = None \<rparr>"

definition sample_world :: "string \<Rightarrow> world" where
  "sample_world pkg = \<lparr>
     fetchUrl = (\<lambda>url. if url = ''https://registry.npmjs.org/'' @ pkg then Some ''registry metadata''
                        else if url = raw_url ''acme'' ''pkg'' ''CHANGELOG.md'' then Some long_changelog
                        else None),
     JSON_parse = (\<lambda>body. if body = ''registry metadata'' then Some sample_registry else None),
     encodeURIComponent = (\<lambda>s. s) \<rparr>"

definition empty_result :: "string \<Rightarrow> DocResult" where
  "empty_result pkg = \<lparr> doc_package = pkg, doc_version = [], doc_description = [],
     doc_repository = [], doc_readme = [], doc_changelog = [],
     doc_migrationGuide = [], doc_homepage = [] \<rparr>"

definition short_changelog :: string where
  "short_changelog = ''Added runes'' @ [CHR 0x0A] @ ''Fixed a bug''"

text \<open>
  A guide of two lines and a world whose repository holds it as readme, as changelog and
  as migration guide.
\<close>

definition sample_guide :: string where
  "sample_guide = ''Added runes to the compiler and to the runtime library'' @ [CHR 0x0A]
     @ ''Fixed a bug in the rendering of components''"

definition docs_world :: world where
  "docs_world = \<lparr>
     fetchUrl = (\<lambda>url. if url = raw_url ''acme'' ''pkg'' ''README.md''
                           \<or> url = raw_url ''acme'' ''pkg'' ''CHANGELOG.md''
                           \<or> url = raw_url ''acme'' ''pkg'' ''MIGRATION.md''
                        then Some sample_guide else None),
     JSON_parse = (\<lambda>body. None),
     encodeURIComponent = (\<lambda>s. s) \<rparr>"

definition all_sections :: doc_opts where
  "all_sections = \<lparr> opts_readme = None, opts_changelog = None, opts_migration = None \<rparr>"

section \<open>Migration service\<close>

subsection \<open>The rules\<close>

datatype issue_kind = Breaking | Deprecated | Recommended

record pattern =
  pat_regex :: regex
  pat_fileExtensions :: "string list"
  pat_type :: issue_kind
  pat_message :: string
  pat_migration :: string

record MigrationRule =
  rule_framework :: string
  rule_fromMajor :: int
  rule_toMajor :: int
  rule_guideUrl :: string
  rule_patterns :: "pattern list"

record MigrationIssue =
  issue_type :: issue_kind
  issue_pattern :: string
  issue_file :: string
  issue_line :: nat
  issue_message :: string
  issue_migration :: string

record MigrationResult =
  res_project :: string
  res_framework :: string
  res_currentVersion :: string
  res_latestMajor :: "string option"
  res_migrationNeeded :: bool
  res_issues :: "MigrationIssue list"
  res_migrationGuideUrl :: "string option"

definition svelte_patterns :: "pattern list" where
  "svelte_patterns =
     [\<lparr> pat_regex = Seq (Lit ''export'') (Seq SpacePlus (Seq (Lit ''let'') SpacePlus)),
        pat_fileExtensions = [''.svelte''], pat_type = Breaking,
        pat_message = ''`export let` props are replaced by `$props()` rune'',
        pat_migration = ''Use `let { prop } = $props()` instead'' \<rparr>,
      \<lparr> pat_regex = Seq (Lit ''$:'') SpacePlus,
        pat_fileExtensions = [''.svelte''], pat_type = Breaking,
        pat_message = ''Reactive `$:` statements replaced by `$derived()` and `$effect()`'',
        pat_migration = ''Use `const x = $derived(...)` for derivations, `$effect(() => {...})` for side effects'' \<rparr>,
      \<lparr> pat_regex = Lit ''createEventDispatcher'',
        pat_fileExtensions = [''.svelte'', ''.ts'', ''.js''], pat_type = Breaking,
        pat_message = ''`createEventDispatcher` replaced by callback props'',
        pat_migration = ''Pass callback functions as props instead'' \<rparr>,
      \<lparr> pat_regex = Alt (Lit ''on:click'') (Alt (Lit ''on:submit'') (Alt (Lit ''on:change'')
                      (Alt (Lit ''on:input'') (Lit ''on:keydown'')))),
        pat_fileExtensions = [''.svelte''], pat_type = Breaking,
        pat_message = ''`on:event` syntax replaced by `onevent` props'',
        pat_migration = ''Use `onclick`, `onsubmit`, `onchange` etc.'' \<rparr>,
      \<lparr> pat_regex = Alt (Seq (Lit ''<slot'') (Seq SpaceStar (Seq (Opt (Lit ''/'')) (Lit ''>''))))
                      (Seq (Lit ''<slot'') (Seq SpacePlus (Lit ''name=''))),
        pat_fileExtensions = [''.svelte''], pat_type = Breaking,
        pat_message = ''`<slot>` replaced by `{@render}` blocks and `{#snippet}`'',
        pat_migration = ''Use `{@render children()}` and `{#snippet name()}...{/snippet}`'' \<rparr>,
      \<lparr> pat_regex = Lit ''svelte-preprocess'',
        pat_fileExtensions = [''.ts'', ''.js'', ''.json''], pat_type = Deprecated,
        pat_message = ''`svelte-preprocess` not needed with Svelte 5'',
        pat_migration = ''Remove from config, Svelte 5 handles preprocessing natively'' \<rparr>,
      \<lparr> pat_regex = Alt (Lit ''afterUpdate'') (Lit ''beforeUpdate''),
        pat_fileExtensions = [''.svelte'', ''.ts'', ''.js''], pat_type = Breaking,
        pat_message = ''`beforeUpdate/afterUpdate` lifecycle hooks removed'',
        pat_migration = ''Use `$effect.pre()` for beforeUpdate, `$effect()` for afterUpdate'' \<rparr>,
      \<lparr> pat_regex = Alt (Lit ''$$props'') (Lit ''$$restProps''),
        pat_fileExtensions = [''.svelte''], pat_type = Breaking,
        pat_message = ''`$$props` and `$$restProps` replaced'',
        pat_migration = ''Use `let { ...rest } = $props()` for rest props'' \<rparr>]"

definition MIGRATION_RULES :: "MigrationRule list" where
  "MIGRATION_RULES =
     [\<lparr> rule_framework = ''svelte'', rule_fromMajor = 4, rule_toMajor = 5,
        rule_guideUrl = ''https://svelte.dev/docs/svelte/v5-migration-guide'',
        rule_patterns = svelte_patterns \<rparr>,
      \<lparr> rule_framework = ''next'', rule_fromMajor = 13, rule_toMajor = 14,
        rule_guideUrl = ''https://nextjs.org/docs/app/building-your-application/upgrading/version-14'',
        rule_patterns =
          [\<lparr> pat_regex = Lit ''next/image'',
             pat_fileExtensions = [''.tsx'', ''.jsx'', ''.ts'', ''.js''], pat_type = Recommended,
             pat_message = ''Check Image component API changes'',
             pat_migration = ''Review `next/image` props for v14 changes'' \<rparr>] \<rparr>,
      \<lparr> rule_framework = ''next'', rule_fromMajor = 14, rule_toMajor = 15,
        rule_guideUrl = ''https://nextjs.org/docs/app/building-your-application/upgrading/version-15'',
        rule_patterns =
          [\<lparr> pat_regex = Alt (Lit ''getServerSideProps'') (Lit ''getStaticProps''),
             pat_fileExtensions = [''.tsx'', ''.jsx'', ''.ts'', ''.js''], pat_type = Deprecated,
             pat_message = ''Pages Router data fetching is legacy'',
             pat_migration = ''Migrate to App Router with server components'' \<rparr>] \<rparr>]"

subsection \<open>The file walk\<close>

text \<open>
  The file system below a directory: what \<open>readdirSync\<close> lists (or its failure), every
  entry a file with what \<open>readFileSync\<close> gives for it (or its failure) or a directory.
  An entry that is not a directory counts as a file, as in the walk.
\<close>

datatype entry = File string "string option" | Dir string listing
  and listing = Unreadable | Listing "entry list"

fun entry_name :: "entry \<Rightarrow> string" where
  "entry_name (File name content) = name"
| "entry_name (Dir name l) = name"

definition SKIP_DIRS :: "string list" where
  "SKIP_DIRS = [''node_modules'', ''.git'', ''.svelte-kit'', ''.next'', ''.nuxt'', ''dist'', ''build'',
     ''.vercel'', ''.cache'', ''vendor'', ''target'', ''__pycache__'']"

text \<open>
  The path library, for POSIX paths. \<open>normalizeString\<close> goes through the pieces of the
  path between slashes: an empty piece and \<open>.\<close> are dropped; \<open>..\<close> removes the piece
  before it, unless there is none or it is \<open>..\<close> itself, and is then kept when the path
  may lead above its start (it is not absolute); every other piece is kept. \<open>normalize\<close>
  puts back the leading slash of an absolute path and one trailing slash; \<open>join\<close> puts a
  slash between its non-empty arguments and normalises the result.
\<close>

definition norm_step :: "bool \<Rightarrow> string list \<Rightarrow> string \<Rightarrow> string list" where
  "norm_step allowAboveRoot res seg =
     (if seg = [] \<or> seg = ''.'' then res
      else if seg = ''..'' then
        (if res \<noteq> [] \<and> last res \<noteq> ''..'' then butlast res
         else if allowAboveRoot then res @ [''..'']
         else res)
      else res @ [seg])"

definition normalizeString :: "string \<Rightarrow> bool \<Rightarrow> string" where
  "normalizeString path allowAboveRoot =
     join ''/'' (foldl (norm_step allowAboveRoot) [] (split CHR ''/'' path))"

definition path_normalize :: "string \<Rightarrow> string" where
  "path_normalize path =
     (if path = [] then ''.''
      else let isAbsolute = (hd path = CHR ''/'');
               trailingSeparator = (last path = CHR ''/'');
               p = normalizeString path (\<not> isAbsolute)
           in if p = [] then (if isAbsolute then ''/'' else if trailingSeparator then ''./'' else ''.'')
              else (if isAbsolute then ''/'' else []) @ p @ (if trailingSeparator then ''/'' else []))"

definition path_join :: "string \<Rightarrow> string \<Rightarrow> string" where
  "path_join dir name =
     (let joined = (if dir = [] then name else if name = [] then dir else dir @ ''/'' @ name)
      in if joined = [] then ''.'' else path_normalize joined)"

text \<open>
  \<open>extname(path)\<close>: in the last piece of the path (trailing slashes apart), the text
  from the last dot on; empty when there is no dot, when the only dot leads the piece,
  and for the piece \<open>..\<close>.
\<close>

definition extname :: "string \<Rightarrow> string" where
  "extname path =
     (let base = rev (takeWhile (\<lambda>c. c \<noteq> CHR ''/'') (dropWhile (\<lambda>c. c = CHR ''/'') (rev path)));
          after = takeWhile (\<lambda>c. c \<noteq> CHR ''.'') (rev base)
      in if length after = length base then []
         else if Suc (length after) = length base then []
         else if base = ''..'' then []
         else CHR ''.'' # rev after)"

fun walkFiles :: "string \<Rightarrow> listing \<Rightarrow> string list \<Rightarrow> nat \<Rightarrow> nat \<Rightarrow> string list"
  and walk_entries :: "string \<Rightarrow> entry list \<Rightarrow> string list \<Rightarrow> nat \<Rightarrow> nat \<Rightarrow> string list" where
  "walkFiles dir Unreadable extensions maxDepth depth = []"
| "walkFiles dir (Listing entries) extensions maxDepth depth =
     (if depth > maxDepth then [] else walk_entries dir entries extensions maxDepth depth)"
| "walk_entries dir [] extensions maxDepth depth = []"
| "walk_entries dir (File name content # rest) extensions maxDepth depth =
     (if startsWith name ''.'' \<or> name \<in> set SKIP_DIRS
      then walk_entries dir rest extensions maxDepth depth
      else (if extname name \<in> set extensions then [path_join dir name] else [])
           @ walk_entries dir rest extensions maxDepth depth)"
| "walk_entries dir (Dir name l # rest) extensions maxDepth depth =
     (if startsWith name ''.'' \<or> name \<in> set SKIP_DIRS
      then walk_entries dir rest extensions maxDepth depth
      else walkFiles (path_join dir name) l extensions maxDepth (depth + 1)
           @ walk_entries dir rest extensions maxDepth depth)"

text \<open>Reading a file by its path: every file of the tree with its path and content.\<close>

fun all_files :: "string \<Rightarrow> listing \<Rightarrow> (string \<times> string option) list"
  and all_files_entries :: "string \<Rightarrow> entry list \<Rightarrow> (string \<times> string option) list" where
  "all_files dir Unreadable = []"
| "all_files dir (Listing entries) = all_files_entries dir entries"
| "all_files_entries dir [] = []"
| "all_files_entries dir (File name content # rest) =
     (path_join dir name, content) # all_files_entries dir rest"
| "all_files_entries dir (Dir name l # rest) =
     all_files (path_join dir name) l @ all_files_entries dir rest"

definition readFileSync :: "string \<Rightarrow> listing \<Rightarrow> string \<Rightarrow> string option" where
  "readFileSync projectPath tree file =
     (case map_of (all_files projectPath tree) file of
        None \<Rightarrow> None
      | Some content \<Rightarrow> content)"

subsection \<open>The scan\<close>

text \<open>\<open>s.replace(p, r)\<close> with a string pattern: the first occurrence is replaced.\<close>

fun replace_first :: "string \<Rightarrow> string \<Rightarrow> string \<Rightarrow> string" where
  "replace_first p r [] = (if p = [] then r else [])"
| "replace_first p r (x # xs) =
     (if startsWith (x # xs) p then r @ drop (length p) (x # xs)
      else x # replace_first p r xs)"

definition show_int :: "int \<Rightarrow> string" where
  "show_int i = (if i < 0 then ''-'' @ show_nat (nat (- i)) else show_nat (nat i))"

text \<open>
  The major version that \<open>getFrameworkMajor\<close> reads from the package files is a
  parameter: an integer, or nothing for null and NaN; nothing and 0 are falsy.
\<close>

definition truthy_major :: "int option \<Rightarrow> bool" where
  "truthy_major m = (case m of None \<Rightarrow> False | Some n \<Rightarrow> n \<noteq> 0)"

text \<open>
  The loop over the lines of a file, for one pattern. The state is \<open>lastIndex\<close> of the
  pattern's regular expression and the issues; \<open>i\<close> is the index of the line.
\<close>

fun line_loop ::
  "runtime \<Rightarrow> pattern \<Rightarrow> string \<Rightarrow> string \<Rightarrow> string list \<Rightarrow> nat \<Rightarrow> nat \<times> MigrationIssue list \<Rightarrow>
   nat \<times> MigrationIssue list" where
  "line_loop rt pattern projectPath file [] i st = st"
| "line_loop rt pattern projectPath file (line # rest) i (lastIndex, issues) =
     (let lastIndex = 0;
          (found, lastIndex) = regex_test rt (pat_regex pattern) lastIndex line
      in line_loop rt pattern projectPath file rest (Suc i)
           (lastIndex,
            if found
            then issues @ [\<lparr> issue_type = pat_type pattern,
                              issue_pattern = regex_source (pat_regex pattern),
                              issue_file = replace_first (projectPath @ ''/'') [] file,
                              issue_line = i + 1,
                              issue_message = pat_message pattern,
                              issue_migration = pat_migration pattern \<rparr>]
            else issues))"

text \<open>The loop over the files: a file that cannot be read is passed over.\<close>

fun file_loop ::
  "runtime \<Rightarrow> string \<Rightarrow> listing \<Rightarrow> pattern \<Rightarrow> string list \<Rightarrow> nat \<times> MigrationIssue list \<Rightarrow>
   nat \<times> MigrationIssue list" where
  "file_loop rt projectPath tree pattern [] st = st"
| "file_loop rt projectPath tree pattern (file # rest) st =
     file_loop rt projectPath tree pattern rest
       (case readFileSync projectPath tree file of
          None \<Rightarrow> st
        | Some content \<Rightarrow> line_loop rt pattern projectPath file (split CHR 0x0A content) 0 st)"

text \<open>
  The loop over the patterns of the rule. The regular expressions are objects of the
  module and keep \<open>lastIndex\<close> between scans: \<open>cursor\<close> gives it by the source of the
  pattern.
\<close>

fun pattern_loop ::
  "runtime \<Rightarrow> string \<Rightarrow> listing \<Rightarrow> pattern list \<Rightarrow> (string \<Rightarrow> nat) \<times> MigrationIssue list \<Rightarrow>
   (string \<Rightarrow> nat) \<times> MigrationIssue list" where
  "pattern_loop rt projectPath tree [] st = st"
| "pattern_loop rt projectPath tree (pattern # rest) (cursor, issues) =
     (let files = walkFiles projectPath tree (pat_fileExtensions pattern) 5 0;
          source = regex_source (pat_regex pattern);
          (lastIndex, issues) = file_loop rt projectPath tree pattern files (cursor source, issues)
      in pattern_loop rt projectPath tree rest (cursor(source := lastIndex), issues))"

definition detectMigration ::
  "runtime \<Rightarrow> (string \<Rightarrow> nat) \<Rightarrow> listing \<Rightarrow> int option \<Rightarrow> string \<Rightarrow> string \<Rightarrow> string \<Rightarrow>
   (string \<Rightarrow> nat) \<times> MigrationResult" where
  "detectMigration rt cursor tree currentMajor projectPath projectName framework =
     (let result = \<lparr> res_project = projectName, res_framework = framework,
                     res_currentVersion =
                       (if truthy_major currentMajor then show_int (the currentMajor) @ ''.x''
                        else ''unknown''),
                     res_latestMajor = None, res_migrationNeeded = False, res_issues = [],
                     res_migrationGuideUrl = None \<rparr>
      in if \<not> truthy_major currentMajor then (cursor, result)
         else
           (let rules = filter (\<lambda>r. toLowerCase rt (rule_framework r) =
                                   replace_first ''next.js'' ''next''
                                     (replace_first ''sveltekit'' ''svelte'' (toLowerCase rt framework))
                                 \<and> rule_fromMajor r = the currentMajor) MIGRATION_RULES
            in if length rules = 0 then (cursor, result)
               else
                 (let rule = hd rules;
                      result = result\<lparr> res_latestMajor := Some (show_int (rule_toMajor rule) @ ''.x''),
                                       res_migrationGuideUrl := Some (rule_guideUrl rule) \<rparr>;
                      (cursor, issues) =
                        pattern_loop rt projectPath tree (rule_patterns rule) (cursor, res_issues result)
                  in (cursor, result\<lparr> res_issues := issues,
                                      res_migrationNeeded := (length issues > 0) \<rparr>))))"

text \<open>
  \<open>detectAllMigrations\<close>: \<open>fs\<close> gives the tree below a project path and
  \<open>getFrameworkMajor\<close> the major version read there; the scans run in order.
\<close>

fun map_detect ::
  "runtime \<Rightarrow> (string \<Rightarrow> listing) \<Rightarrow> (string \<Rightarrow> string \<Rightarrow> int option) \<Rightarrow> (string \<Rightarrow> nat) \<Rightarrow>
   project_info list \<Rightarrow> MigrationResult list" where
  "map_detect rt fs getFrameworkMajor cursor [] = []"
| "map_detect rt fs getFrameworkMajor cursor (p # rest) =
     (let (cursor', r) = detectMigration rt cursor (fs (info_path p))
                           (getFrameworkMajor (info_path p) (info_framework p))
                           (info_path p) (info_name p) (info_framework p)
      in r # map_detect rt fs getFrameworkMajor cursor' rest)"

definition detectAllMigrations ::
  "runtime \<Rightarrow> (string \<Rightarrow> listing) \<Rightarrow> (string \<Rightarrow> string \<Rightarrow> int option) \<Rightarrow> (string \<Rightarrow> nat) \<Rightarrow>
   project_info list \<Rightarrow> MigrationResult list" where
  "detectAllMigrations rt fs getFrameworkMajor cursor projects =
     filter res_migrationNeeded (map_detect rt fs getFrameworkMajor cursor projects)"

text \<open>
  The vocabulary of the claims about the scan. A pattern has a match on a line when the
  search from the start of the line finds one; the rule that applies is the first of the
  table for the framework and the major version; \<open>issue_of\<close> is the issue that a
  pattern, a file and a line number stand for.
\<close>

definition matches_line :: "runtime \<Rightarrow> regex \<Rightarrow> string \<Rightarrow> bool" where
  "matches_line rt r line = (regex_search rt r line 0 \<noteq> None)"

definition applicable_rule :: "runtime \<Rightarrow> string \<Rightarrow> int option \<Rightarrow> MigrationRule option" where
  "applicable_rule rt framework currentMajor =
     (if truthy_major currentMajor
      then find (\<lambda>r. toLowerCase rt (rule_framework r) =
                        replace_first ''next.js'' ''next''
                          (replace_first ''sveltekit'' ''svelte'' (toLowerCase rt framework))
                      \<and> rule_fromMajor r = the currentMajor) MIGRATION_RULES
      else None)"

definition issue_of :: "pattern \<Rightarrow> string \<Rightarrow> string \<Rightarrow> nat \<Rightarrow> MigrationIssue" where
  "issue_of pattern projectPath file n =
     \<lparr> issue_type = pat_type pattern, issue_pattern = regex_source (pat_regex pattern),
       issue_file = replace_first (projectPath @ ''/'') [] file, issue_line = n,
       issue_message = pat_message pattern, issue_migration = pat_migration pattern \<rparr>"

definition line_issues :: "runtime \<Rightarrow> pattern \<Rightarrow> string \<Rightarrow> string \<Rightarrow> nat \<times> string \<Rightarrow> MigrationIssue list" where
  "line_issues rt pattern projectPath file il =
     (if matches_line rt (pat_regex pattern) (snd il)
      then [issue_of pattern projectPath file (Suc (fst il))] else [])"

definition file_issues :: "runtime \<Rightarrow> pattern \<Rightarrow> string \<Rightarrow> listing \<Rightarrow> string \<Rightarrow> MigrationIssue list" where
  "file_issues rt pattern projectPath tree file =
     (case readFileSync projectPath tree file of
        None \<Rightarrow> []
      | Some content \<Rightarrow>
          concat (map (line_issues rt pattern projectPath file) (enumerate 0 (split CHR 0x0A content))))"

definition pattern_issues :: "runtime \<Rightarrow> string \<Rightarrow> listing \<Rightarrow> pattern \<Rightarrow> MigrationIssue list" where
  "pattern_issues rt projectPath tree pattern =
     concat (map (file_issues rt pattern projectPath tree)
       (walkFiles projectPath tree (pat_fileExtensions pattern) 5 0))"

definition issue_triple :: "MigrationIssue \<Rightarrow> string \<times> nat \<times> string" where
  "issue_triple i = (issue_file i, issue_line i, issue_pattern i)"

text \<open>
  The names a file system lists in a directory are plain: not empty, not \<open>.\<close> or \<open>..\<close>,
  without a slash; and no name is listed twice. A tree of such directories is
  well-formed.
\<close>

definition plain_segment :: "string \<Rightarrow> bool" where
  "plain_segment s = (s \<noteq> [] \<and> s \<noteq> ''.'' \<and> s \<noteq> ''..'' \<and> CHR ''/'' \<notin> set s)"

fun wf_tree :: "listing \<Rightarrow> bool"
  and wf_entries :: "entry list \<Rightarrow> bool" where
  "wf_tree Unreadable = True"
| "wf_tree (Listing entries) = (distinct (map entry_name entries) \<and> wf_entries entries)"
| "wf_entries [] = True"
| "wf_entries (File name content # rest) = (plain_segment name \<and> wf_entries rest)"
| "wf_entries (Dir name l # rest) = (plain_segment name \<and> wf_tree l \<and> wf_entries rest)"

text \<open>
  \<open>file_at tree names\<close>: the names lead, directory after directory from the top of the
  tree, to an entry that is not a directory.
\<close>

fun file_at :: "listing \<Rightarrow> string list \<Rightarrow> bool"
  and file_among :: "entry list \<Rightarrow> string list \<Rightarrow> bool" where
  "file_at Unreadable names = False"
| "file_at (Listing entries) names = file_among entries names"
| "file_among [] names = False"
| "file_among (File name content # rest) names = (names = [name] \<or> file_among rest names)"
| "file_among (Dir name l # rest) names =
     ((case names of [] \<Rightarrow> False | n # ns \<Rightarrow> n = name \<and> file_at l ns) \<or> file_among rest names)"

text \<open>
  A path has a hidden component when a piece between slashes starts with a dot; names
  are visible when none starts with a dot.
\<close>

definition hidden_component :: "string \<Rightarrow> bool" where
  "hidden_component p = list_ex (\<lambda>c. startsWith c ''.'') (split CHR ''/'' p)"

definition visible_names :: "string list \<Rightarrow> bool" where
  "visible_names names = list_all (\<lambda>n. \<not> startsWith n ''.'') names"

text \<open>The path of a chain of names below a directory: the names joined on one by one.\<close>

definition path_below :: "string \<Rightarrow> string list \<Rightarrow> string" where
  "path_below dir names = foldl path_join dir names"

text \<open>
  A path is normal when \<open>join\<close> leaves it as it is and it names something below the
  top directory: it is a slash followed by plain pieces with slashes between them, or a
  relative path of pieces \<open>..\<close> followed by plain pieces.
\<close>

definition normal_path :: "string \<Rightarrow> bool" where
  "normal_path p =
     (case split CHR ''/'' p of
        [] \<Rightarrow> False
      | first # rest \<Rightarrow>
          if first = [] then rest \<noteq> [] \<and> list_all plain_segment rest
          else list_all plain_segment (dropWhile (\<lambda>s. s = ''..'') (first # rest)))"

text \<open>
  The leading slash of a path, if it has one, and the pieces \<open>normalizeString\<close> keeps of
  it.
\<close>

definition path_root :: "string \<Rightarrow> string" where
  "path_root dir = (if dir \<noteq> [] \<and> hd dir = CHR ''/'' then ''/'' else [])"

definition path_segments :: "string \<Rightarrow> string list" where
  "path_segments dir = foldl (norm_step (path_root dir = [])) [] (split CHR ''/'' dir)"

text \<open>A sample project tree: a component, a hidden file and a hidden directory.\<close>

definition sample_tree :: listing where
  "sample_tree = Listing
     [Dir ''src'' (Listing
        [File ''App.svelte'' (Some (''<script>'' @ [CHR 0x0A] @ ''  export let foo; export let bar;'' @ [CHR 0x0A] @ ''</script>'')),
         File ''.Hidden.svelte'' (Some ''export let secret;''),
         File ''notes.txt'' (Some ''export let x'')]),
      Dir ''.cache'' (Listing [File ''Old.svelte'' (Some ''export let old;'')]),
      File ''package.json'' (Some ''{}'')]"

section \<open>Live audit of all projects\<close>

definition ECOSYSTEM_MAP :: "(string \<times> string) list" where
  "ECOSYSTEM_MAP =
     [(''node'', ''npm''), (''python'', ''PyPI''), (''rust'', ''crates.io''), (''go'', ''Go''),
      (''php'', ''Packagist''), (''ruby'', ''RubyGems''), (''dart'', ''Pub'')]"

text \<open>The fields \<open>source\<close> (a constant) and \<open>queriedAt\<close> (the clock) are left out.\<close>

record LiveCveResult =
  live_project :: string
  live_vulnerabilities :: "OsvVulnerability list"
  live_packagesQueried :: nat

text \<open>
  \<open>getInstalledPackages\<close> reads the manifest of one of four languages; what the branch
  of a language collects from the files is the parameter \<open>installed\<close>. For every other
  language the list stays empty.
\<close>

definition getInstalledPackages ::
  "(string \<Rightarrow> string \<Rightarrow> package list) \<Rightarrow> string \<Rightarrow> string \<Rightarrow> package list" where
  "getInstalledPackages installed projectPath language =
     (if language \<in> set [''node'', ''rust'', ''python'', ''go''] then installed projectPath language
      else [])"

text \<open>
  \<open>liveAuditProject\<close>. \<open>ECOSYSTEM_MAP\<close> is an object literal: for a language that is an
  inherited key the ecosystem is truthy and no string; such a language is none of the
  four, no package is found and no request is made.
\<close>

definition liveAuditProject ::
  "(nat \<Rightarrow> osv_query list \<Rightarrow> osv_response) \<Rightarrow> (string \<Rightarrow> string \<Rightarrow> package list) \<Rightarrow>
   string \<Rightarrow> string \<Rightarrow> string \<Rightarrow> LiveCveResult" where
  "liveAuditProject fetch installed projectPath projectName language =
     (case get_property ECOSYSTEM_MAP language of
        Undefined \<Rightarrow>
          \<lparr> live_project = projectName, live_vulnerabilities = [], live_packagesQueried = 0 \<rparr>
      | Inherited \<Rightarrow>
          \<lparr> live_project = projectName, live_vulnerabilities = [], live_packagesQueried = 0 \<rparr>
      | Own ecosystem \<Rightarrow>
          (let packages = getInstalledPackages installed projectPath language;
               vulns = snd (queryOsv fetch packages ecosystem)
           in \<lparr> live_project = projectName, live_vulnerabilities = vulns,
                live_packagesQueried = length packages \<rparr>))"

text \<open>
  \<open>liveAuditAllProjects\<close>: the projects in order; the index answers the requests made
  for the \<open>n\<close>-th project with \<open>net n\<close>.
\<close>

fun audit_loop ::
  "(nat \<Rightarrow> nat \<Rightarrow> osv_query list \<Rightarrow> osv_response) \<Rightarrow> (string \<Rightarrow> string \<Rightarrow> package list) \<Rightarrow>
   nat \<Rightarrow> project_info list \<Rightarrow> LiveCveResult list \<Rightarrow> LiveCveResult list" where
  "audit_loop net installed n [] results = results"
| "audit_loop net installed n (p # rest) results =
     (let result = liveAuditProject (net n) installed (info_path p) (info_name p) (info_language p)
      in audit_loop net installed (Suc n) rest
           (if length (live_vulnerabilities result) > 0 then results @ [result] else results))"

definition liveAuditAllProjects ::
  "(nat \<Rightarrow> nat \<Rightarrow> osv_query list \<Rightarrow> osv_response) \<Rightarrow> (string \<Rightarrow> string \<Rightarrow> package list) \<Rightarrow>
   project_info list \<Rightarrow> LiveCveResult list" where
  "liveAuditAllProjects net installed projects = audit_loop net installed 0 projects []"

section \<open>Background checker\<close>

record outdated_package =
  pkg_current :: string
  pkg_latest :: string

text \<open>The timestamp \<open>checkedAt\<close> of an entry is left out: it is the clock's value.\<close>

record cache_entry =
  entry_project :: string
  entry_path :: string
  entry_language :: string
  entry_framework :: string
  entry_outdatedCount :: int
  entry_majorCount :: int
  entry_securityIssues :: int
  entry_score :: int

text \<open>
  \<open>getOutdated\<close> and \<open>isMajorUpdate\<close> belong to the project service, which the checker
  imports; they are parameters here. \<open>getOutdated\<close> yields the outdated packages by name,
  or nothing when it throws.
\<close>

type_synonym outdated = "(string \<times> outdated_package) list"

definition make_entry :: "(string \<Rightarrow> string \<Rightarrow> bool) \<Rightarrow> project_info \<Rightarrow> outdated \<Rightarrow> cache_entry" where
  "make_entry isMajorUpdate info outd =
     (let outdatedCount = int (length outd);
          majorCount = int (length (filter (\<lambda>(_, pkg). isMajorUpdate (pkg_current pkg) (pkg_latest pkg)) outd));
          score = 100;
          score = score - min (outdatedCount * 3) 40;
          score = score - majorCount * 10;
          score = max 0 (min 100 score)
      in \<lparr> entry_project = info_name info, entry_path = info_path info,
           entry_language = info_language info, entry_framework = info_framework info,
           entry_outdatedCount = outdatedCount, entry_majorCount = majorCount,
           entry_securityIssues = 0, entry_score = score \<rparr>)"

fun scan_projects ::
  "(project_info \<Rightarrow> outdated option) \<Rightarrow> (string \<Rightarrow> string \<Rightarrow> bool) \<Rightarrow>
   cache_entry list \<Rightarrow> project_info list \<Rightarrow> cache_entry list" where
  "scan_projects getOutdated isMajorUpdate entries [] = entries"
| "scan_projects getOutdated isMajorUpdate entries (info # rest) =
     (case getOutdated info of
        None \<Rightarrow> scan_projects getOutdated isMajorUpdate entries rest
      | Some outd \<Rightarrow>
          scan_projects getOutdated isMajorUpdate
            (entries @ [make_entry isMajorUpdate info outd]) rest)"

text \<open>
  The checker's \<open>main\<close>: with no project it exits before anything is written; otherwise
  it hands the collected entries to \<open>writeCache\<close>. \<open>alerts\<close> is the count it logs.
\<close>

datatype main_result = Exited | CacheWritten "cache_entry list" nat

definition main ::
  "project_info list \<Rightarrow> (project_info \<Rightarrow> outdated option) \<Rightarrow> (string \<Rightarrow> string \<Rightarrow> bool) \<Rightarrow>
   main_result" where
  "main projects getOutdated isMajorUpdate =
     (if length projects = 0 then Exited
      else let entries = scan_projects getOutdated isMajorUpdate [] projects;
               alerts = length (filter (\<lambda>e. entry_outdatedCount e > 0) entries)
           in CacheWritten entries alerts)"

text \<open>
  The vocabulary of the claim about the score: \<open>clamp\<close> as the specification words it,
  and the scores of the entries a run wrote.
\<close>

definition clamp :: "int \<Rightarrow> int \<Rightarrow> int \<Rightarrow> int" where
  "clamp x lo hi = (if x < lo then lo else if hi < x then hi else x)"

definition written_scores :: "main_result \<Rightarrow> int list" where
  "written_scores r = (case r of Exited \<Rightarrow> [] | CacheWritten entries alerts \<Rightarrow> map entry_score entries)"

text \<open>
  Sample inputs: a project, \<open>n\<close> outdated packages named \<open>p\<close>, \<open>pp\<close>, ..., \<open>n\<close>
  installed packages named likewise, and an advisory.
\<close>

definition sample_packages :: "nat \<Rightarrow> package list" where
  "sample_packages n =
     map (\<lambda>i. \<lparr> package_name = replicate (Suc i) CHR ''p'', package_version = ''1.0.0'' \<rparr>) [0..<n]"

definition sample_advisory :: advisory where
  "sample_advisory = \<lparr> adv_id = ''GHSA-1'', adv_summary = Some ''Prototype pollution'',
     adv_details = None, adv_severity = [Some (Finite (75 / 10))],
     adv_affected = [[[\<lparr> event_fixed = None \<rparr>, \<lparr> event_fixed = Some ''1.0.1'' \<rparr>]]],
     adv_references = [], adv_published = Some ''2024-01-01'' \<rparr>"

definition sample_project :: project_info where
  "sample_project = \<lparr> info_name = ''app'', info_path = ''/srv/app'',
     info_language = ''node'', info_framework = ''svelte'' \<rparr>"

definition sample_outdated :: "nat \<Rightarrow> outdated" where
  "sample_outdated n =
     map (\<lambda>i. (replicate (Suc i) CHR ''p'', \<lparr> pkg_current = ''1.0.0'', pkg_latest = ''2.0.0'' \<rparr>)) [0..<n]"

section \<open>Sample inputs of the multi-project scans\<close>

text \<open>
  A second project with nothing to report, an index that knows an advisory for the first
  project only, and the packages installed.
\<close>

definition clean_project :: project_info where
  "clean_project = \<lparr> info_name = ''lib'', info_path = ''/srv/lib'',
     info_language = ''node'', info_framework = ''svelte'' \<rparr>"

definition sample_net :: "nat \<Rightarrow> nat \<Rightarrow> osv_query list \<Rightarrow> osv_response" where
  "sample_net n k batch = (if n = 0 then Results [Some [sample_advisory]] else Results [None])"

definition sample_installed :: "string \<Rightarrow> string \<Rightarrow> package list" where
  "sample_installed projectPath language = sample_packages 1"

definition sample_fs :: "string \<Rightarrow> listing" where
  "sample_fs projectPath = (if projectPath = ''/srv/app'' then sample_tree else Listing [])"

text \<open>A project service that finds nothing outdated, and one that calls no update major.\<close>

definition nothing_outdated :: "project_info \<Rightarrow> outdated option" where
  "nothing_outdated info = Some []"

definition never_major :: "string \<Rightarrow> string \<Rightarrow> bool" where
  "never_major current latest = False"

section \<open>Properties of the string operations\<close>

lemma split_pieces_free: "s \<in> set (split c x) \<Longrightarrow> c \<notin> set s"
proof (induction x arbitrary: s)
  case Nil
  then show ?case by simp
next
  case (Cons a x)
  then show ?case by (cases "split c x") (auto split: if_splits)
qed

lemma split_not_Nil: "split c x \<noteq> []"
  by (cases x) (auto split: list.splits)

lemma split_piece:
  "c \<notin> set p \<Longrightarrow> split c (p @ c # rest) = p # split c rest"
  by (induction p) auto

lemma split_last_piece: "c \<notin> set p \<Longrightarrow> split c p = [p]"
  by (induction p) auto

lemma split_append_sep: "split c (a @ c # b) = split c a @ split c b"
proof (induction a)
  case Nil
  then show ?case by simp
next
  case (Cons x a)
  then show ?case using split_not_Nil[of c a] by (cases "split c a") auto
qed

lemma join_snoc: "join sep (xs @ [n]) = (if xs = [] then n else join sep xs @ sep @ n)"
  by (induction sep xs rule: join.induct) auto

lemma join_append:
  "xs \<noteq> [] \<Longrightarrow> ys \<noteq> [] \<Longrightarrow> join sep (xs @ ys) = join sep xs @ sep @ join sep ys"
proof (induction sep xs rule: join.induct)
  case (1 sep)
  then show ?case by simp
next
  case (2 sep x)
  then show ?case by (cases ys) auto
next
  case (3 sep x y ys)
  then show ?case by simp
qed

lemma split_join:
  "xs \<noteq> [] \<Longrightarrow> \<forall>s \<in> set xs. c \<notin> set s \<Longrightarrow> split c (join [c] xs) = xs"
proof (induction "[c]" xs rule: join.induct)
  case 1
  then show ?case by simp
next
  case (2 x)
  then show ?case by (simp add: split_last_piece)
next
  case (3 x y ys)
  then show ?case by (simp add: split_piece)
qed

lemma join_split: "join [c] (split c s) = s"
proof (induction s)
  case Nil
  then show ?case by simp
next
  case (Cons a s)
  show ?case
  proof (cases "a = c")
    case True
    then show ?thesis using Cons split_not_Nil[of c s] by (cases "split c s") auto
  next
    case False
    then show ?thesis using Cons split_not_Nil[of c s]
      by (cases "split c s"; cases "tl (split c s)") auto
  qed
qed

section \<open>Properties of the background checker\<close>

lemma make_entry_fields:
  "entry_outdatedCount (make_entry f info outd) = int (length outd)"
  "entry_majorCount (make_entry f info outd) =
     int (length (filter (\<lambda>(_, pkg). f (pkg_current pkg) (pkg_latest pkg)) outd))"
  "entry_score (make_entry f info outd) =
     max 0 (min 100 (100 - min (int (length outd) * 3) 40
       - int (length (filter (\<lambda>(_, pkg). f (pkg_current pkg) (pkg_latest pkg)) outd)) * 10))"
  by (simp_all add: make_entry_def Let_def)

lemma make_entry_closed:
  "make_entry f info outd =
     \<lparr> entry_project = info_name info, entry_path = info_path info,
       entry_language = info_language info, entry_framework = info_framework info,
       entry_outdatedCount = int (length outd),
       entry_majorCount =
         int (length (filter (\<lambda>(_, pkg). f (pkg_current pkg) (pkg_latest pkg)) outd)),
       entry_securityIssues = 0,
       entry_score =
         clamp (100 - min (3 * int (length outd)) 40
                - 10 * int (length (filter (\<lambda>(_, pkg). f (pkg_current pkg) (pkg_latest pkg)) outd)))
           0 100 \<rparr>"
  by (auto simp: make_entry_def Let_def clamp_def)

lemma scan_projects_map:
  "scan_projects g f acc ps =
     acc @ map (\<lambda>info. make_entry f info (the (g info))) (filter (\<lambda>info. g info \<noteq> None) ps)"
  by (induction ps arbitrary: acc) (auto split: option.splits)

lemma sample_outdated_length: "length (sample_outdated n) = n"
  by (simp add: sample_outdated_def)

lemma sample_outdated_filter:
  "filter (\<lambda>(_, pkg). b) (sample_outdated n) = (if b then sample_outdated n else [])"
  by (simp add: case_prod_unfold)

text \<open>
  C2. When there is a project, the checker writes to the cache, in the order of the
  projects, one entry for every project whose outdated packages could be listed: with
  \<open>n\<close> the number of its outdated packages and \<open>m\<close> the number of those a major version
  behind, the entry carries the counts \<open>n\<close> and \<open>m\<close> and the score
  \<open>100 - min (3 n) 40 - 10 m\<close> clamped to the range from 0 to 100.
\<close>

theorem checker_health_score:
  assumes "projects \<noteq> []"
  shows "\<exists>alerts. main projects getOutdated isMajorUpdate =
     CacheWritten
       (map (\<lambda>info.
          \<lparr> entry_project = info_name info, entry_path = info_path info,
            entry_language = info_language info, entry_framework = info_framework info,
            entry_outdatedCount = int (length (the (getOutdated info))),
            entry_majorCount =
              int (length (filter (\<lambda>(_, pkg). isMajorUpdate (pkg_current pkg) (pkg_latest pkg))
                             (the (getOutdated info)))),
            entry_securityIssues = 0,
            entry_score =
              clamp (100 - min (3 * int (length (the (getOutdated info)))) 40
                     - 10 * int (length (filter (\<lambda>(_, pkg). isMajorUpdate (pkg_current pkg) (pkg_latest pkg))
                                           (the (getOutdated info)))))
                0 100 \<rparr>)
          (filter (\<lambda>info. getOutdated info \<noteq> None) projects))
       alerts"
  using assms by (simp add: main_def Let_def scan_projects_map make_entry_closed)

text \<open>
  The three sample scores: nothing outdated gives 100, twenty outdated packages none of
  them major give 60, one outdated package that is major gives 87.
\<close>

theorem checker_health_score_witness:
  "written_scores (main [sample_project] (\<lambda>_. Some (sample_outdated 0)) (\<lambda>_ _. False)) = [100]
   \<and> written_scores (main [sample_project] (\<lambda>_. Some (sample_outdated 20)) (\<lambda>_ _. False)) = [60]
   \<and> written_scores (main [sample_project] (\<lambda>_. Some (sample_outdated 1)) (\<lambda>_ _. True)) = [87]"
proof -
  have "[sample_project] \<noteq> []" by simp
  note t = checker_health_score[OF this]
  have a: "written_scores (main [sample_project] (\<lambda>_. Some (sample_outdated 0)) (\<lambda>_ _. False)) = [100]"
    using t[of "\<lambda>_. Some (sample_outdated 0)" "\<lambda>_ _. False"]
    by (auto simp: written_scores_def sample_outdated_length clamp_def)
  have b: "written_scores (main [sample_project] (\<lambda>_. Some (sample_outdated 20)) (\<lambda>_ _. False)) = [60]"
    using t[of "\<lambda>_. Some (sample_outdated 20)" "\<lambda>_ _. False"]
    by (auto simp: written_scores_def sample_outdated_length clamp_def)
  have c: "written_scores (main [sample_project] (\<lambda>_. Some (sample_outdated 1)) (\<lambda>_ _. True)) = [87]"
    using t[of "\<lambda>_. Some (sample_outdated 1)" "\<lambda>_ _. True"]
    by (auto simp: written_scores_def sample_outdated_length clamp_def)
  from a b c show ?thesis by blast
qed

section \<open>Properties of the severity mapping\<close>

text \<open>
  C3, as the claim words it, fails at the score 0: it is a present score below 4, and
  the result is not \<open>low\<close>.
\<close>

theorem mapSeverity_zero_counterexample:
  "(0::rat) < 4 \<and> mapSeverity (Some (Finite 0)) \<noteq> Low"
  by (simp add: mapSeverity_def)

text \<open>
  C3, amended. A present finite score other than 0 is critical from 9, high from 7,
  moderate from 4 and low below 4; the guard on a falsy score makes an absent score,
  the score 0 and NaN all moderate.
\<close>

theorem mapSeverity_thresholds:
  "(s \<noteq> 0 \<longrightarrow> mapSeverity (Some (Finite s)) =
      (if 9 \<le> s then Critical else if 7 \<le> s then High else if 4 \<le> s then Moderate else Low))
   \<and> mapSeverity (Some (Finite 0)) = Moderate
   \<and> mapSeverity (Some NaN) = Moderate
   \<and> mapSeverity None = Moderate"
  by (simp add: mapSeverity_def)

theorem mapSeverity_thresholds_witness:
  "mapSeverity (Some (Finite (98 / 10))) = Critical
   \<and> mapSeverity (Some (Finite (75 / 10))) = High
   \<and> mapSeverity (Some (Finite 4)) = Moderate
   \<and> mapSeverity (Some (Finite (31 / 10))) = Low"
  using mapSeverity_thresholds[of "98 / 10"] mapSeverity_thresholds[of "75 / 10"]
    mapSeverity_thresholds[of 4] mapSeverity_thresholds[of "31 / 10"]
  by simp

section \<open>Properties of the update type\<close>

lemma shift_count_small: "n < 2 ^ 53 \<Longrightarrow> shift_count n = 0"
  by (simp add: shift_count.simps)

lemma shift_count_first: "shift_count 9007199254740992 = Suc 0"
  by (subst shift_count.simps) (simp add: shift_count_small)

lemma round_double_exact: "n \<le> 2 ^ 53 \<Longrightarrow> round_double n = n"
proof (cases "n < 2 ^ 53")
  case True
  then show ?thesis by (simp add: round_double_def shift_count_small)
next
  case False
  assume "n \<le> 2 ^ 53"
  with False have n: "n = 2 ^ 53" by simp
  show ?thesis unfolding n by (simp add: round_double_def Let_def shift_count_first)
qed

lemma Number_digits:
  "list_all is_digit p \<Longrightarrow> decimal_value p \<le> 2 ^ 53 \<Longrightarrow>
   Number p = Finite (of_nat (decimal_value p))"
proof -
  assume d: "list_all is_digit p" and b: "decimal_value p \<le> 2 ^ 53"
  have "(2::nat) ^ 53 < 2 ^ 1024" by simp
  with b have "\<not> 2 ^ 1024 \<le> decimal_value p" by linarith
  with d b show ?thesis by (simp add: Number_def Let_def round_double_exact)
qed

lemma or_zero_nat: "or_zero (Some (Finite (of_nat n))) = Finite (of_nat n)"
  by (simp add: or_zero_def)

lemma or_zero_at_index:
  "list_all (\<lambda>p. p \<noteq> [] \<and> list_all is_digit p) ps \<Longrightarrow>
   (case at_index (map decimal_value ps) i of None \<Rightarrow> 0 | Some n \<Rightarrow> n) \<le> 2 ^ 53 \<Longrightarrow>
   or_zero (at_index (map Number ps) i) =
     Finite (of_nat (case at_index (map decimal_value ps) i of None \<Rightarrow> 0 | Some n \<Rightarrow> n))"
proof (induction ps i rule: at_index.induct)
  case (1 i)
  then show ?case by (simp add: or_zero_def)
next
  case (2 x xs)
  then show ?case by (simp add: Number_digits or_zero_nat)
next
  case (3 x xs i)
  then show ?case by simp
qed

lemma version_less_cases:
  "version_less xs ys \<Longrightarrow>
   (case at_index xs 0 of None \<Rightarrow> 0 | Some n \<Rightarrow> n) < (case at_index ys 0 of None \<Rightarrow> 0 | Some n \<Rightarrow> n)
   \<or> ((case at_index xs 0 of None \<Rightarrow> 0 | Some n \<Rightarrow> n) = (case at_index ys 0 of None \<Rightarrow> 0 | Some n \<Rightarrow> n)
      \<and> (case at_index xs 1 of None \<Rightarrow> 0 | Some n \<Rightarrow> n)
          \<le> (case at_index ys 1 of None \<Rightarrow> (0::nat) | Some n \<Rightarrow> n))"
  apply (cases xs; cases ys; simp)
  subgoal for y ys' by (cases ys'; auto)
  subgoal for x xs' y ys' by (cases xs'; cases ys'; auto)
  done

text \<open>
  The numbers are doubles: \<open>Number\<close> gives \<open>9007199254740993\<close>, which is \<open>2^53 + 1\<close>, the
  double \<open>2^53\<close>.
\<close>

lemma decimal_value_above: "decimal_value ''9007199254740993'' = 9007199254740993"
  by (simp add: decimal_value_def digit_value_def)

lemma decimal_value_limit: "decimal_value ''9007199254740992'' = 9007199254740992"
  by (simp add: decimal_value_def digit_value_def)

lemma round_double_above: "round_double 9007199254740993 = 9007199254740992"
proof -
  have "shift_count 9007199254740993 = Suc 0"
    by (subst shift_count.simps) (simp add: shift_count_small)
  then show ?thesis by (simp add: round_double_def Let_def)
qed

lemma round_double_limit: "round_double 9007199254740992 = 9007199254740992"
  using round_double_exact[of 9007199254740992] by simp

lemma Number_above: "Number ''9007199254740993'' = Finite 9007199254740992"
proof -
  have "list_all is_digit ''9007199254740993''" by (simp add: is_digit_def)
  moreover have "\<not> (2::nat) ^ 1024 \<le> 9007199254740992" by simp
  ultimately show ?thesis
    by (simp only: Number_def decimal_value_above round_double_above Let_def if_True if_False)
       simp
qed

lemma Number_limit: "Number ''9007199254740992'' = Finite 9007199254740992"
proof -
  have "list_all is_digit ''9007199254740992''" by (simp add: is_digit_def)
  moreover have "\<not> (2::nat) ^ 1024 \<le> 9007199254740992" by simp
  ultimately show ?thesis
    by (simp only: Number_def decimal_value_limit round_double_limit Let_def if_True if_False)
       simp
qed

lemma Number_zero: "Number ''0'' = Finite 0"
  by (simp add: Number_def is_digit_def decimal_value_def digit_value_def round_double_def
      shift_count_small Let_def)

text \<open>
  C9. As stated the claim fails: \<open>9007199254740993.0.0\<close> is above
  \<open>9007199254740992.0.0\<close> and their leading components differ, yet the two leading
  components are the same double and the update is classified as a patch.
\<close>

theorem getUpdateType_rounding_counterexample:
  "dotted_numeric ''9007199254740992.0.0'' \<and> dotted_numeric ''9007199254740993.0.0''
   \<and> version_less (components ''9007199254740992.0.0'') (components ''9007199254740993.0.0'')
   \<and> component ''9007199254740993.0.0'' 0 \<noteq> component ''9007199254740992.0.0'' 0
   \<and> getUpdateType ''9007199254740992.0.0'' ''9007199254740993.0.0'' = Patch"
proof -
  have s: "split CHR ''.'' ''9007199254740992.0.0'' = [''9007199254740992'', ''0'', ''0'']"
    "split CHR ''.'' ''9007199254740993.0.0'' = [''9007199254740993'', ''0'', ''0'']"
    by simp_all
  have z: "decimal_value ''0'' = 0" by (simp add: decimal_value_def digit_value_def)
  have d: "dotted_numeric ''9007199254740992.0.0''" "dotted_numeric ''9007199254740993.0.0''"
    unfolding dotted_numeric_def s by (simp_all add: is_digit_def)
  have cs: "components ''9007199254740992.0.0'' = [9007199254740992, 0, 0]"
    "components ''9007199254740993.0.0'' = [9007199254740993, 0, 0]"
    unfolding components_def s by (simp_all add: decimal_value_limit decimal_value_above z)
  have v: "version_less (components ''9007199254740992.0.0'') (components ''9007199254740993.0.0'')"
    unfolding cs by simp
  have n: "component ''9007199254740993.0.0'' 0 \<noteq> component ''9007199254740992.0.0'' 0"
    unfolding component_def cs by simp
  have g: "getUpdateType ''9007199254740992.0.0'' ''9007199254740993.0.0'' = Patch"
    unfolding getUpdateType_def s
    by (simp add: Number_above Number_limit Number_zero or_zero_def)
  from d v n g show ?thesis by simp
qed

text \<open>
  C9, amended. For dotted numeric versions with \<open>latest\<close> above \<open>current\<close> whose two
  leading components are at most \<open>2^53\<close> (the numbers every double represents exactly),
  the update is major when the leading components differ, minor when they agree and the
  second components differ, and a patch otherwise.
\<close>

theorem getUpdateType_first_differing:
  assumes "dotted_numeric current" and "dotted_numeric latest"
    and "version_less (components current) (components latest)"
    and "component current 0 \<le> 2 ^ 53" and "component current 1 \<le> 2 ^ 53"
    and "component latest 0 \<le> 2 ^ 53" and "component latest 1 \<le> 2 ^ 53"
  shows "getUpdateType current latest =
           (if component latest 0 \<noteq> component current 0 then Major
            else if component latest 1 \<noteq> component current 1 then Minor
            else Patch)"
proof -
  have c: "or_zero (at_index (map Number (split CHR ''.'' current)) i)
      = Finite (of_nat (component current i))" if "component current i \<le> 2 ^ 53" for i
    using assms(1) that
    by (simp add: or_zero_at_index dotted_numeric_def component_def components_def)
  have l: "or_zero (at_index (map Number (split CHR ''.'' latest)) i)
      = Finite (of_nat (component latest i))" if "component latest i \<le> 2 ^ 53" for i
    using assms(2) that
    by (simp add: or_zero_at_index dotted_numeric_def component_def components_def)
  from version_less_cases[OF assms(3)]
  have "component current 0 < component latest 0
        \<or> (component current 0 = component latest 0 \<and> component current 1 \<le> component latest 1)"
    by (simp add: component_def)
  moreover have "or_zero (at_index (map Number (split CHR ''.'' current)) (Suc 0))
      = Finite (of_nat (component current (Suc 0)))"
    using c[of 1] assms(5) by simp
  moreover have "or_zero (at_index (map Number (split CHR ''.'' latest)) (Suc 0))
      = Finite (of_nat (component latest (Suc 0)))"
    using l[of 1] assms(7) by simp
  ultimately show ?thesis
    by (auto simp: getUpdateType_def Let_def c[OF assms(4)] l[OF assms(6)])
qed

text \<open>The three sample pairs: 3.2.0 to 4.0.0, to 3.5.0 and to 3.2.9.\<close>

theorem getUpdateType_first_differing_witness:
  "getUpdateType ''3.2.0'' ''4.0.0'' = Major
   \<and> getUpdateType ''3.2.0'' ''3.5.0'' = Minor
   \<and> getUpdateType ''3.2.0'' ''3.2.9'' = Patch"
proof -
  have d: "dotted_numeric ''3.2.0''" "dotted_numeric ''4.0.0''"
    "dotted_numeric ''3.5.0''" "dotted_numeric ''3.2.9''"
    by (simp_all add: dotted_numeric_def is_digit_def)
  have cs: "components ''3.2.0'' = [3, 2, 0]" "components ''4.0.0'' = [4, 0, 0]"
    "components ''3.5.0'' = [3, 5, 0]" "components ''3.2.9'' = [3, 2, 9]"
    by (simp_all add: components_def decimal_value_def digit_value_def)
  have v: "version_less (components ''3.2.0'') (components ''4.0.0'')"
    "version_less (components ''3.2.0'') (components ''3.5.0'')"
    "version_less (components ''3.2.0'') (components ''3.2.9'')"
    by (simp_all add: cs)
  have b: "component ''3.2.0'' 0 \<le> 2 ^ 53" "component ''3.2.0'' 1 \<le> 2 ^ 53"
    "component ''4.0.0'' 0 \<le> 2 ^ 53" "component ''4.0.0'' 1 \<le> 2 ^ 53"
    "component ''3.5.0'' 0 \<le> 2 ^ 53" "component ''3.5.0'' 1 \<le> 2 ^ 53"
    "component ''3.2.9'' 0 \<le> 2 ^ 53" "component ''3.2.9'' 1 \<le> 2 ^ 53"
    by (simp_all add: component_def cs)
  show ?thesis
    using getUpdateType_first_differing[OF d(1) d(2) v(1) b(1) b(2) b(3) b(4)]
      getUpdateType_first_differing[OF d(1) d(3) v(2) b(1) b(2) b(5) b(6)]
      getUpdateType_first_differing[OF d(1) d(4) v(3) b(1) b(2) b(7) b(8)]
    by (simp add: component_def cs)
qed

section \<open>Properties of the batched queries\<close>

lemma results_loop_acc:
  "results_loop P e i rs j vs = vs @ results_loop P e i rs j []"
proof (induction rs arbitrary: j vs)
  case Nil
  then show ?case by simp
next
  case (Cons r rs)
  show ?case
  proof (cases "advisories r = []")
    case True
    then show ?thesis using Cons.IH[of "Suc j" vs] by simp
  next
    case False
    show ?thesis
    proof (cases "at_index P (i + j)")
      case None
      with False show ?thesis by simp
    next
      case (Some pkg)
      with False show ?thesis
        using Cons.IH[of "Suc j" "vs @ map (to_vulnerability e pkg) (advisories r)"]
          Cons.IH[of "Suc j" "map (to_vulnerability e pkg) (advisories r)"]
        by simp
    qed
  qed
qed

lemma at_index_nth: "at_index xs i = (if i < length xs then Some (xs ! i) else None)"
  by (induction xs i rule: at_index.induct) auto

lemma results_loop_attributed_from:
  "results_loop P e i rs j [] =
     concat (map (\<lambda>(j, r). map (to_vulnerability e (P ! (i + j))) (advisories r))
       (takeWhile (\<lambda>(j, r). advisories r = [] \<or> i + j < length P) (enumerate j rs)))"
proof (induction rs arbitrary: j)
  case Nil
  then show ?case by simp
next
  case (Cons r rs)
  show ?case
  proof (cases "advisories r = []")
    case True
    then show ?thesis using Cons.IH[of "Suc j"] by simp
  next
    case False
    then show ?thesis
      using Cons.IH[of "Suc j"]
        results_loop_acc[of P e i rs "Suc j" "map (to_vulnerability e (P ! (i + j))) (advisories r)"]
      by (simp add: at_index_nth)
  qed
qed

lemma results_loop_attributed: "results_loop P e i rs 0 vs = vs @ attributed P e i rs"
  using results_loop_acc[of P e i rs 0 vs]
  by (simp add: attributed_def results_loop_attributed_from)

lemma batch_loop_unfold:
  "i = 100 * k \<Longrightarrow> length sent = k \<Longrightarrow>
   batch_loop f P e Q i (sent, vs) =
     (sent @ map (batch_of Q) [k..<batch_count (length Q)],
      vs @ concat (map (batch_vulns f P e Q) [k..<batch_count (length Q)]))"
proof (induction f P e Q i "(sent, vs)" arbitrary: sent vs k rule: batch_loop.induct)
  case (1 f P e Q i sent vs)
  show ?case
  proof (cases "i < length Q")
    case False
    with 1(2) have "batch_count (length Q) \<le> k" by (simp add: batch_count_def)
    with False show ?thesis by (simp add: batch_loop.simps)
  next
    case True
    with 1(2) have lt: "k < batch_count (length Q)" by (simp add: batch_count_def)
    define vs' where "vs' = (case f (length sent) (slice i (i + 100) Q) of
        Failed \<Rightarrow> vs | NotOk \<Rightarrow> vs | Results rs \<Rightarrow> results_loop P e i rs 0 vs)"
    have sl: "slice i (i + 100) Q = batch_of Q k"
      using 1(2) by (simp add: slice_def batch_of_def)
    have vs': "vs' = vs @ batch_vulns f P e Q k"
      unfolding vs'_def batch_vulns_def sl 1(3) using 1(2)
      by (simp add: results_loop_attributed split: osv_response.splits)
    have "batch_loop f P e Q i (sent, vs) =
        batch_loop f P e Q (i + 100) (sent @ [slice i (i + 100) Q], vs')"
      using True by (simp add: batch_loop.simps[of f P e Q i] Let_def vs'_def)
    also have "\<dots> =
        ((sent @ [slice i (i + 100) Q]) @ map (batch_of Q) [Suc k..<batch_count (length Q)],
         vs' @ concat (map (batch_vulns f P e Q) [Suc k..<batch_count (length Q)]))"
      by (rule 1(1)[OF True refl vs'_def, of "Suc k"]) (use 1(2,3) in simp_all)
    finally show ?thesis
      using lt by (simp add: sl vs' upt_conv_Cons)
  qed
qed

lemma queryOsv_unfold:
  "queryOsv f P e =
     (map (batch_of (package_queries e P)) [0..<batch_count (length P)],
      concat (map (batch_vulns f P e (package_queries e P)) [0..<batch_count (length P)]))"
  using batch_loop_unfold[of 0 0 "[]" f P e "package_queries e P" "[]"]
  by (simp add: queryOsv_def package_queries_def)

lemma concat_map_skip:
  "g k = [] \<Longrightarrow> concat (map g xs) = concat (map g (filter (\<lambda>k'. k' \<noteq> k) xs))"
  by (induction xs) auto

lemma sample_packages_length: "length (sample_packages n) = n"
  by (simp add: sample_packages_def)

lemma sample_packages_nth:
  "i < n \<Longrightarrow> sample_packages n ! i =
     \<lparr> package_name = replicate (Suc i) CHR ''p'', package_version = ''1.0.0'' \<rparr>"
  by (simp add: sample_packages_def)

lemma to_vulnerability_fields:
  "vuln_id (to_vulnerability e p a) = adv_id a"
  "vuln_package (to_vulnerability e p a) = package_name p"
  "vuln_ecosystem (to_vulnerability e p a) = e"
  "vuln_affectedRange (to_vulnerability e p a) = package_version p @ '' (installed)''"
  by (simp_all add: to_vulnerability_def Let_def)

lemma batch_query_nth:
  assumes "100 * k + j < length P" and "j < 100"
  shows "map (\<lambda>k. map f (take 100 (drop (100 * k) P))) [0..<(length P + 99) div 100] ! k ! j
           = f (P ! (100 * k + j))"
proof -
  from assms have k: "k < (length P + 99) div 100" by simp
  have "map (\<lambda>k. map f (take 100 (drop (100 * k) P))) [0..<(length P + 99) div 100] ! k
      = map f (take 100 (drop (100 * k) P))"
    using k by simp
  moreover have "j < length (take 100 (drop (100 * k) P))" using assms by simp
  ultimately show ?thesis using assms by simp
qed

text \<open>
  C1. The requests of \<open>queryOsv\<close> are the consecutive batches of 100 queries, one request
  for each batch, \<open>(n + 99) div 100\<close> for \<open>n\<close> packages: query \<open>j\<close> of request \<open>k\<close> carries
  the name and the version of the package at index \<open>100 k + j\<close>. The vulnerabilities
  returned are, request after request, those of the results the index gave: the
  advisories at index \<open>j\<close> of the results of request \<open>k\<close> become vulnerabilities of the
  package at index \<open>100 k + j\<close> of the whole list, named by its name and its version, up to
  the first entry with advisories for which there is no such package; a request answered
  with no more results than it had queries is attributed whole.
\<close>

theorem queryOsv_batches_positional:
  "fst (queryOsv fetch packages ecosystem) =
     map (\<lambda>k. map (\<lambda>p. \<lparr> query_name = package_name p, query_ecosystem = ecosystem,
                            query_version = package_version p \<rparr>)
                 (take 100 (drop (100 * k) packages)))
       [0..<(length packages + 99) div 100]
   \<and> length (fst (queryOsv fetch packages ecosystem)) = (length packages + 99) div 100
   \<and> (100 * k + j < length packages \<and> j < 100 \<longrightarrow>
        fst (queryOsv fetch packages ecosystem) ! k ! j =
          \<lparr> query_name = package_name (packages ! (100 * k + j)), query_ecosystem = ecosystem,
            query_version = package_version (packages ! (100 * k + j)) \<rparr>)
   \<and> snd (queryOsv fetch packages ecosystem) =
       concat (map (\<lambda>k.
           case fetch k (map (\<lambda>p. \<lparr> query_name = package_name p, query_ecosystem = ecosystem,
                                      query_version = package_version p \<rparr>)
                           (take 100 (drop (100 * k) packages))) of
             Failed \<Rightarrow> []
           | NotOk \<Rightarrow> []
           | Results results \<Rightarrow>
               concat (map (\<lambda>(j, r). map (to_vulnerability ecosystem (packages ! (100 * k + j)))
                                        (advisories r))
                 (takeWhile (\<lambda>(j, r). advisories r = [] \<or> 100 * k + j < length packages)
                    (enumerate 0 results))))
         [0..<(length packages + 99) div 100])
   \<and> (vuln_id (to_vulnerability ecosystem pkg vuln) = adv_id vuln
      \<and> vuln_package (to_vulnerability ecosystem pkg vuln) = package_name pkg
      \<and> vuln_ecosystem (to_vulnerability ecosystem pkg vuln) = ecosystem
      \<and> vuln_affectedRange (to_vulnerability ecosystem pkg vuln)
          = package_version pkg @ '' (installed)'')
   \<and> (length results \<le> length (take 100 (drop (100 * k) packages)) \<longrightarrow>
        takeWhile (\<lambda>(j, r). advisories r = [] \<or> 100 * k + j < length packages)
          (enumerate 0 results) = enumerate 0 results)"
proof -
  have q: "batch_of (package_queries ecosystem packages) k' =
      map (\<lambda>p. \<lparr> query_name = package_name p, query_ecosystem = ecosystem,
                  query_version = package_version p \<rparr>)
        (take 100 (drop (100 * k') packages))" for k'
    by (simp add: batch_of_def package_queries_def take_map drop_map)
  have sent: "fst (queryOsv fetch packages ecosystem) =
     map (\<lambda>k. map (\<lambda>p. \<lparr> query_name = package_name p, query_ecosystem = ecosystem,
                            query_version = package_version p \<rparr>)
                 (take 100 (drop (100 * k) packages)))
       [0..<(length packages + 99) div 100]"
    by (simp add: queryOsv_unfold batch_count_def q)
  have len: "length (fst (queryOsv fetch packages ecosystem)) = (length packages + 99) div 100"
    unfolding sent by simp
  have nth: "100 * k + j < length packages \<and> j < 100 \<longrightarrow>
        fst (queryOsv fetch packages ecosystem) ! k ! j =
          \<lparr> query_name = package_name (packages ! (100 * k + j)), query_ecosystem = ecosystem,
            query_version = package_version (packages ! (100 * k + j)) \<rparr>"
    unfolding sent using batch_query_nth[of k j packages] by blast
  have bv: "batch_vulns fetch packages ecosystem (package_queries ecosystem packages) =
      (\<lambda>k. case fetch k (map (\<lambda>p. \<lparr> query_name = package_name p, query_ecosystem = ecosystem,
                                      query_version = package_version p \<rparr>)
                           (take 100 (drop (100 * k) packages))) of
             Failed \<Rightarrow> []
           | NotOk \<Rightarrow> []
           | Results results \<Rightarrow>
               concat (map (\<lambda>(j, r). map (to_vulnerability ecosystem (packages ! (100 * k + j)))
                                        (advisories r))
                 (takeWhile (\<lambda>(j, r). advisories r = [] \<or> 100 * k + j < length packages)
                    (enumerate 0 results))))"
    by (rule ext) (simp add: batch_vulns_def q attributed_def split: osv_response.splits)
  have vulns: "snd (queryOsv fetch packages ecosystem) =
       concat (map (\<lambda>k.
           case fetch k (map (\<lambda>p. \<lparr> query_name = package_name p, query_ecosystem = ecosystem,
                                      query_version = package_version p \<rparr>)
                           (take 100 (drop (100 * k) packages))) of
             Failed \<Rightarrow> []
           | NotOk \<Rightarrow> []
           | Results results \<Rightarrow>
               concat (map (\<lambda>(j, r). map (to_vulnerability ecosystem (packages ! (100 * k + j)))
                                        (advisories r))
                 (takeWhile (\<lambda>(j, r). advisories r = [] \<or> 100 * k + j < length packages)
                    (enumerate 0 results))))
         [0..<(length packages + 99) div 100])"
    by (simp add: queryOsv_unfold batch_count_def bv)
  have whole: "length results \<le> length (take 100 (drop (100 * k) packages)) \<longrightarrow>
        takeWhile (\<lambda>(j, r). advisories r = [] \<or> 100 * k + j < length packages)
          (enumerate 0 results) = enumerate 0 results"
  proof
    assume l: "length results \<le> length (take 100 (drop (100 * k) packages))"
    have "\<forall>x \<in> set (enumerate 0 results).
        (\<lambda>(j, r). advisories r = [] \<or> 100 * k + j < length packages) x"
    proof
      fix x assume "x \<in> set (enumerate 0 results)"
      then have "fst x < length results" by (auto simp: in_set_enumerate_eq)
      with l have "fst x < length packages - 100 * k" by simp
      then show "(\<lambda>(j, r). advisories r = [] \<or> 100 * k + j < length packages) x"
        by (auto simp: case_prod_unfold)
    qed
    then show "takeWhile (\<lambda>(j, r). advisories r = [] \<or> 100 * k + j < length packages)
        (enumerate 0 results) = enumerate 0 results"
      unfolding takeWhile_eq_all_conv .
  qed
  from sent len nth vulns whole to_vulnerability_fields[of ecosystem pkg vuln]
  show ?thesis by blast
qed

text \<open>
  250 packages make 3 requests, and query 49 of the third request is for the package at
  index 249; with 101 packages, an advisory in the first result of the second request
  goes to the package at index 100, the one result being attributed whole.
\<close>

theorem queryOsv_batches_positional_witness:
  "length (fst (queryOsv (\<lambda>k batch. Failed) (sample_packages 250) ''npm'')) = 3
   \<and> query_name (fst (queryOsv (\<lambda>k batch. Failed) (sample_packages 250) ''npm'') ! 2 ! 49)
     = replicate 250 CHR ''p''
   \<and> map vuln_package
       (snd (queryOsv (\<lambda>k batch. if k = 1 then Results [Some [sample_advisory]] else Results [])
          (sample_packages 101) ''npm''))
     = [replicate 101 CHR ''p'']
   \<and> takeWhile (\<lambda>(j, r). advisories r = [] \<or> 100 * 1 + j < length (sample_packages 101))
       (enumerate 0 [Some [sample_advisory]]) = enumerate 0 [Some [sample_advisory]]"
proof -
  have n: "[0..<2::nat] = [0, 1]"
    by (simp add: upt_rec)
  note a = queryOsv_batches_positional[where fetch = "\<lambda>k batch. Failed"
      and packages = "sample_packages 250" and ecosystem = "''npm''" and k = 2 and j = 49
      and results = "[]"]
  note b = queryOsv_batches_positional[where
      fetch = "\<lambda>k batch. if k = 1 then Results [Some [sample_advisory]] else Results []"
      and packages = "sample_packages 101" and ecosystem = "''npm''" and k = 1 and j = 0
      and results = "[Some [sample_advisory]]"]
  have l: "length (fst (queryOsv (\<lambda>k batch. Failed) (sample_packages 250) ''npm'')) = 3"
    using a[THEN conjunct2, THEN conjunct1] by (simp add: sample_packages_length)
  have "fst (queryOsv (\<lambda>k batch. Failed) (sample_packages 250) ''npm'') ! 2 ! 49 =
      \<lparr> query_name = package_name (sample_packages 250 ! (100 * 2 + 49)), query_ecosystem = ''npm'',
        query_version = package_version (sample_packages 250 ! (100 * 2 + 49)) \<rparr>"
    by (rule a[THEN conjunct2, THEN conjunct2, THEN conjunct1, THEN mp])
       (simp add: sample_packages_length)
  then have q: "query_name (fst (queryOsv (\<lambda>k batch. Failed) (sample_packages 250) ''npm'') ! 2 ! 49)
      = replicate 250 CHR ''p''"
    by (simp add: sample_packages_nth)
  have v: "map vuln_package
       (snd (queryOsv (\<lambda>k batch. if k = 1 then Results [Some [sample_advisory]] else Results [])
          (sample_packages 101) ''npm''))
     = [replicate 101 CHR ''p'']"
    using b[THEN conjunct2, THEN conjunct2, THEN conjunct2, THEN conjunct1]
    by (simp add: sample_packages_length n advisories_def to_vulnerability_fields
        sample_packages_nth)
  have w: "takeWhile (\<lambda>(j, r). advisories r = [] \<or> 100 * 1 + j < length (sample_packages 101))
       (enumerate 0 [Some [sample_advisory]]) = enumerate 0 [Some [sample_advisory]]"
    by (rule b[THEN conjunct2, THEN conjunct2, THEN conjunct2, THEN conjunct2, THEN conjunct2,
          THEN mp])
       (simp add: sample_packages_length)
  from l q v w show ?thesis by blast
qed

text \<open>
  C8. When the request for batch \<open>k\<close> fails, times out or is answered with a response
  that is not OK, every batch is still requested and the vulnerabilities returned are
  those of the other batches, batch \<open>k\<close> adding none.
\<close>

theorem queryOsv_failed_batch_skipped:
  assumes "k < batch_count (length packages)"
    and "fetch k (batch_of (package_queries ecosystem packages) k) = Failed
         \<or> fetch k (batch_of (package_queries ecosystem packages) k) = NotOk"
  shows "length (fst (queryOsv fetch packages ecosystem)) = batch_count (length packages)
    \<and> snd (queryOsv fetch packages ecosystem) =
        concat (map (batch_vulns fetch packages ecosystem (package_queries ecosystem packages))
          (filter (\<lambda>k'. k' \<noteq> k) [0..<batch_count (length packages)]))"
proof -
  from assms(2) have "batch_vulns fetch packages ecosystem (package_queries ecosystem packages) k = []"
    by (auto simp: batch_vulns_def)
  from concat_map_skip[of "batch_vulns fetch packages ecosystem (package_queries ecosystem packages)", OF this]
  show ?thesis by (simp add: queryOsv_unfold)
qed

text \<open>
  250 packages, the second of the three requests failing: the advisories of the first
  and the third batch are returned, for the packages at 0 and at 200.
\<close>

theorem queryOsv_failed_batch_skipped_witness:
  "map vuln_package
     (snd (queryOsv (\<lambda>k batch. if k = 1 then Failed else Results [Some [sample_advisory]])
        (sample_packages 250) ''npm''))
   = [replicate 1 CHR ''p'', replicate 201 CHR ''p'']
   \<and> length (fst (queryOsv (\<lambda>k batch. if k = 1 then Failed else Results [Some [sample_advisory]])
        (sample_packages 250) ''npm'')) = 3"
proof -
  have n: "[0..<3::nat] = [0, 1, 2]" "batch_count 250 = 3"
    by (simp_all add: batch_count_def upt_rec)
  show ?thesis
    using queryOsv_failed_batch_skipped[of 1 "sample_packages 250"
        "\<lambda>k batch. if k = 1 then Failed else Results [Some [sample_advisory]]" "''npm''"]
    by (simp add: sample_packages_length n batch_vulns_def attributed_def advisories_def
        to_vulnerability_def sample_packages_nth)
qed

section \<open>Properties of the documentation filter\<close>

lemma match_loop_no_match:
  assumes "list_all (\<lambda>line. list_all (\<lambda>kw. \<not> string_includes (toLowerCase rt line) kw) kws) lines"
    and "\<forall>i \<in> set idx. i < length lines"
  shows "match_loop rt lines kws c idx acc = acc"
  using assms(2)
proof (induction idx arbitrary: acc)
  case Nil
  then show ?case by simp
next
  case (Cons i idx)
  then have "lines ! i \<in> set lines" by simp
  with assms(1) have "list_all (\<lambda>kw. \<not> string_includes (toLowerCase rt (lines ! i)) kw) kws"
    by (simp add: list_all_iff)
  then have "\<not> list_ex (\<lambda>kw. string_includes (toLowerCase rt (lines ! i)) kw) kws"
    by (simp add: list_all_iff list_ex_iff)
  with Cons show ?case by simp
qed

lemma filterByQuery_unmatched:
  assumes "no_keyword_match rt text query"
  shows "filterByQuery rt text (Some query) c = text"
proof -
  have "match_loop rt (split CHR 0x0A text) (keywords_of rt query) c
      [0..<length (split CHR 0x0A text)] [] = []"
    using assms by (intro match_loop_no_match) (simp_all add: no_keyword_match_def)
  then show ?thesis by (simp add: filterByQuery_def Let_def)
qed

lemma doc_section_no_match:
  "query \<noteq> [] \<Longrightarrow> no_keyword_match rt text query \<Longrightarrow>
   doc_section rt (Some query) text maxLines = truncateDoc text maxLines"
  by (simp add: doc_section_def filterByQuery_unmatched)

lemma fetch_changelog_field:
  "doc_changelog (fetch_changelog rt w pkg gh query result) =
     (if fetchFirstFound w (fst gh) (snd gh) (getMonorepoPaths (base_name pkg) changelog_files) = []
      then doc_changelog result
      else doc_section rt query
             (fetchFirstFound w (fst gh) (snd gh) (getMonorepoPaths (base_name pkg) changelog_files))
             200)"
  by (simp add: fetch_changelog_def Let_def)

lemma split_repeated:
  "c \<notin> set p \<Longrightarrow> c \<notin> set q \<Longrightarrow>
   split c (concat (replicate n (p @ [c])) @ q) = replicate n p @ [q]"
  by (induction n) (simp_all add: split_last_piece split_piece)

lemma long_changelog_lines: "split CHR 0x0A long_changelog = replicate 200 ''fix'' @ [''fix'']"
  using split_repeated[of "CHR 0x0A" "''fix''" "''fix''" 200]
  by (simp add: long_changelog_def)

lemma long_changelog_length: "length long_changelog = 803"
  by (simp add: long_changelog_def length_concat sum_list_replicate)

lemma long_changelog_found:
  "fetchFirstFound (sample_world ''pkg'') ''acme'' ''pkg''
     (getMonorepoPaths (base_name ''pkg'') changelog_files) = long_changelog"
proof -
  have "long_changelog \<noteq> []" using long_changelog_length by auto
  then show ?thesis
    by (simp add: fetchFirstFound_def sample_world_def getMonorepoPaths_def changelog_files_def
        base_name_def raw_url_def long_changelog_length)
qed

lemma no_match_zzz: "no_keyword_match latin1 long_changelog ''zzz''"
proof -
  have "keywords_of latin1 ''zzz'' = [''zzz'']" by code_simp
  moreover have "\<not> string_includes (toLowerCase latin1 ''fix'') ''zzz''" by code_simp
  ultimately show ?thesis
    by (simp add: no_keyword_match_def long_changelog_lines list_all_iff)
qed

text \<open>
  C4, as the claim words it, fails for a changelog of 201 lines none of which holds the
  keyword: the section returned is not the text (it ends with the marker).
\<close>

theorem changelog_no_match_counterexample:
  "''zzz'' \<noteq> [] \<and> no_keyword_match latin1 long_changelog ''zzz''
   \<and> fetchFirstFound (sample_world ''pkg'') ''acme'' ''pkg''
        (getMonorepoPaths (base_name ''pkg'') changelog_files) = long_changelog
   \<and> doc_changelog (fetch_changelog latin1 (sample_world ''pkg'') ''pkg'' (''acme'', ''pkg'') (Some ''zzz'')
        (empty_result ''pkg'')) \<noteq> long_changelog"
proof -
  have ne: "long_changelog \<noteq> []" using long_changelog_length by auto
  have "doc_changelog (fetch_changelog latin1 (sample_world ''pkg'') ''pkg'' (''acme'', ''pkg'') (Some ''zzz'')
        (empty_result ''pkg'')) = truncateDoc long_changelog 200"
    using ne by (simp add: fetch_changelog_field long_changelog_found doc_section_no_match no_match_zzz)
  moreover have "last (truncateDoc long_changelog 200) = CHR '')''"
    by (simp add: truncateDoc_def long_changelog_lines)
  moreover have "last long_changelog = CHR ''x''"
    by (simp add: long_changelog_def)
  ultimately have "doc_changelog (fetch_changelog latin1 (sample_world ''pkg'') ''pkg'' (''acme'', ''pkg'')
        (Some ''zzz'') (empty_result ''pkg'')) \<noteq> long_changelog"
    by auto
  then show ?thesis
    using no_match_zzz long_changelog_found by simp
qed

lemma truncateDoc_nonempty: "text \<noteq> [] \<Longrightarrow> truncateDoc text n \<noteq> []"
  by (simp add: truncateDoc_def Let_def)

lemma fetch_readme_field:
  "doc_readme (fetch_readme rt w npmJson repo query result) =
     (let text = (if (or_empty (npm_readme npmJson) = [] \<or> length (or_empty (npm_readme npmJson)) < 100)
                     \<and> repo \<noteq> None
                  then fetchFirstFound w (fst (the repo)) (snd (the repo)) readme_files
                  else or_empty (npm_readme npmJson))
      in if text = [] then doc_readme result else doc_section rt query text 300)"
  by (simp add: fetch_readme_def Let_def)

lemma fetch_migration_known:
  assumes "(case get_property MIGRATION_PATHS pkg of
              Undefined \<Rightarrow> get_property MIGRATION_PATHS (base_name pkg) | p \<Rightarrow> p) = Own paths"
    and "fetchFirstFound w (fst gh) (snd gh) paths \<noteq> []"
    and "doc_section rt query (fetchFirstFound w (fst gh) (snd gh) paths) 300 \<noteq> []"
  shows "fetch_migration rt w pkg gh query result =
     Inr (result\<lparr> doc_migrationGuide :=
            doc_section rt query (fetchFirstFound w (fst gh) (snd gh) paths) 300 \<rparr>)"
  using assms by (simp add: fetch_migration_def Let_def)

lemma fetch_migration_generic:
  assumes "(case (case get_property MIGRATION_PATHS pkg of
                    Undefined \<Rightarrow> get_property MIGRATION_PATHS (base_name pkg) | p \<Rightarrow> p) of
              Undefined \<Rightarrow> True
            | Own paths \<Rightarrow> fetchFirstFound w (fst gh) (snd gh) paths = []
            | Inherited \<Rightarrow> False)"
    and "doc_migrationGuide result = []"
    and "fetchFirstFound w (fst gh) (snd gh) (getMonorepoPaths (base_name pkg) migration_files) \<noteq> []"
  shows "fetch_migration rt w pkg gh query result =
     Inr (result\<lparr> doc_migrationGuide :=
            doc_section rt query
              (fetchFirstFound w (fst gh) (snd gh) (getMonorepoPaths (base_name pkg) migration_files))
              300 \<rparr>)"
  using assms by (simp add: fetch_migration_def Let_def split: property.splits)

text \<open>
  C4, amended. When no line of the text holds a keyword of the non-empty query, the
  filter returns the text unchanged; the section is that text put through the truncation:
  the text itself when it has no more lines than the bound, and else its first lines up to
  the bound followed by the marker. The sections of the documentation are such sections:
  the readme (from the registry, or from the repository when the registry's is shorter
  than 100) with bound 300, the changelog with bound 200, the migration guide (from the
  known paths of the package, or else from the generic paths) with bound 300.
\<close>

theorem filterByQuery_no_match_full_text:
  assumes "query \<noteq> []" and "no_keyword_match rt text query"
  shows "filterByQuery rt text (Some query) 5 = text
    \<and> doc_section rt (Some query) text maxLines = truncateDoc text maxLines
    \<and> (length (split CHR 0x0A text) \<le> maxLines \<longrightarrow> doc_section rt (Some query) text maxLines = text)
    \<and> (maxLines < length (split CHR 0x0A text) \<longrightarrow>
         doc_section rt (Some query) text maxLines =
           join [CHR 0x0A] (take maxLines (split CHR 0x0A text))
           @ [CHR 0x0A, CHR 0x0A] @ ''... (truncated, ''
           @ show_nat (length (split CHR 0x0A text) - maxLines) @ '' more lines)'')
    \<and> (text = (if (or_empty (npm_readme npmJson) = [] \<or> length (or_empty (npm_readme npmJson)) < 100)
                   \<and> repo \<noteq> None
                then fetchFirstFound w (fst (the repo)) (snd (the repo)) readme_files
                else or_empty (npm_readme npmJson))
         \<and> text \<noteq> [] \<longrightarrow>
         doc_readme (fetch_readme rt w npmJson repo (Some query) result) = truncateDoc text 300)
    \<and> (text = fetchFirstFound w (fst gh) (snd gh) (getMonorepoPaths (base_name pkg) changelog_files)
         \<and> text \<noteq> [] \<longrightarrow>
         doc_changelog (fetch_changelog rt w pkg gh (Some query) result) = truncateDoc text 200)
    \<and> ((case get_property MIGRATION_PATHS pkg of
            Undefined \<Rightarrow> get_property MIGRATION_PATHS (base_name pkg) | p \<Rightarrow> p) = Own paths
         \<and> text = fetchFirstFound w (fst gh) (snd gh) paths \<and> text \<noteq> [] \<longrightarrow>
         fetch_migration rt w pkg gh (Some query) result =
           Inr (result\<lparr> doc_migrationGuide := truncateDoc text 300 \<rparr>))
    \<and> ((case (case get_property MIGRATION_PATHS pkg of
                  Undefined \<Rightarrow> get_property MIGRATION_PATHS (base_name pkg) | p \<Rightarrow> p) of
            Undefined \<Rightarrow> True
          | Own known \<Rightarrow> fetchFirstFound w (fst gh) (snd gh) known = []
          | Inherited \<Rightarrow> False)
         \<and> doc_migrationGuide result = []
         \<and> text = fetchFirstFound w (fst gh) (snd gh) (getMonorepoPaths (base_name pkg) migration_files)
         \<and> text \<noteq> [] \<longrightarrow>
         fetch_migration rt w pkg gh (Some query) result =
           Inr (result\<lparr> doc_migrationGuide := truncateDoc text 300 \<rparr>))"
proof -
  have s: "doc_section rt (Some query) text n = truncateDoc text n" for n
    using assms by (rule doc_section_no_match)
  have a: "filterByQuery rt text (Some query) 5 = text"
    using assms(2) by (rule filterByQuery_unmatched)
  have b: "length (split CHR 0x0A text) \<le> maxLines \<longrightarrow> truncateDoc text maxLines = text"
    by (simp add: truncateDoc_def)
  have c: "maxLines < length (split CHR 0x0A text) \<longrightarrow>
      truncateDoc text maxLines =
           join [CHR 0x0A] (take maxLines (split CHR 0x0A text))
           @ [CHR 0x0A, CHR 0x0A] @ ''... (truncated, ''
           @ show_nat (length (split CHR 0x0A text) - maxLines) @ '' more lines)''"
    by (simp add: truncateDoc_def Let_def slice_def)
  have d: "text = (if (or_empty (npm_readme npmJson) = [] \<or> length (or_empty (npm_readme npmJson)) < 100)
                   \<and> repo \<noteq> None
                then fetchFirstFound w (fst (the repo)) (snd (the repo)) readme_files
                else or_empty (npm_readme npmJson))
         \<and> text \<noteq> [] \<longrightarrow>
         doc_readme (fetch_readme rt w npmJson repo (Some query) result) = truncateDoc text 300"
    using s[of 300] unfolding fetch_readme_field Let_def by auto
  have e: "text = fetchFirstFound w (fst gh) (snd gh)
        (getMonorepoPaths (base_name pkg) changelog_files) \<and> text \<noteq> [] \<longrightarrow>
      doc_changelog (fetch_changelog rt w pkg gh (Some query) result) = truncateDoc text 200"
    using s[of 200] by (auto simp: fetch_changelog_field)
  have f: "(case get_property MIGRATION_PATHS pkg of
            Undefined \<Rightarrow> get_property MIGRATION_PATHS (base_name pkg) | p \<Rightarrow> p) = Own paths
         \<and> text = fetchFirstFound w (fst gh) (snd gh) paths \<and> text \<noteq> [] \<longrightarrow>
         fetch_migration rt w pkg gh (Some query) result =
           Inr (result\<lparr> doc_migrationGuide := truncateDoc text 300 \<rparr>)"
  proof (intro impI, elim conjE)
    assume k: "(case get_property MIGRATION_PATHS pkg of
            Undefined \<Rightarrow> get_property MIGRATION_PATHS (base_name pkg) | p \<Rightarrow> p) = Own paths"
      and t: "text = fetchFirstFound w (fst gh) (snd gh) paths" and ne: "text \<noteq> []"
    have "doc_section rt (Some query) text 300 \<noteq> []"
      unfolding s using ne by (rule truncateDoc_nonempty)
    from fetch_migration_known[OF k ne[unfolded t] this[unfolded t], of result]
    show "fetch_migration rt w pkg gh (Some query) result =
           Inr (result\<lparr> doc_migrationGuide := truncateDoc text 300 \<rparr>)"
      unfolding t[symmetric] s .
  qed
  have g: "(case (case get_property MIGRATION_PATHS pkg of
                  Undefined \<Rightarrow> get_property MIGRATION_PATHS (base_name pkg) | p \<Rightarrow> p) of
            Undefined \<Rightarrow> True
          | Own known \<Rightarrow> fetchFirstFound w (fst gh) (snd gh) known = []
          | Inherited \<Rightarrow> False)
         \<and> doc_migrationGuide result = []
         \<and> text = fetchFirstFound w (fst gh) (snd gh) (getMonorepoPaths (base_name pkg) migration_files)
         \<and> text \<noteq> [] \<longrightarrow>
         fetch_migration rt w pkg gh (Some query) result =
           Inr (result\<lparr> doc_migrationGuide := truncateDoc text 300 \<rparr>)"
  proof (intro impI, elim conjE)
    assume k: "(case (case get_property MIGRATION_PATHS pkg of
                  Undefined \<Rightarrow> get_property MIGRATION_PATHS (base_name pkg) | p \<Rightarrow> p) of
            Undefined \<Rightarrow> True
          | Own known \<Rightarrow> fetchFirstFound w (fst gh) (snd gh) known = []
          | Inherited \<Rightarrow> False)"
      and r: "doc_migrationGuide result = []"
      and t: "text = fetchFirstFound w (fst gh) (snd gh)
          (getMonorepoPaths (base_name pkg) migration_files)"
      and ne: "text \<noteq> []"
    from fetch_migration_generic[OF k r ne[unfolded t], of rt "Some query"]
    show "fetch_migration rt w pkg gh (Some query) result =
           Inr (result\<lparr> doc_migrationGuide := truncateDoc text 300 \<rparr>)"
      unfolding t[symmetric] s .
  qed
  from a b c d e f g show ?thesis unfolding s by blast
qed

lemma sample_guide_found:
  "fetchFirstFound docs_world ''acme'' ''pkg'' readme_files = sample_guide"
  "fetchFirstFound docs_world ''acme'' ''pkg'' (getMonorepoPaths (base_name ''pkg'') changelog_files)
     = sample_guide"
  "fetchFirstFound docs_world ''acme'' ''pkg'' [''CHANGELOG.md''] = sample_guide"
  "fetchFirstFound docs_world ''acme'' ''pkg'' (getMonorepoPaths (base_name ''pkg'') migration_files)
     = sample_guide"
  by code_simp+

lemma sample_guide_facts:
  "sample_guide \<noteq> []"
  "no_keyword_match latin1 sample_guide ''stores''"
  "truncateDoc sample_guide 300 = sample_guide"
  "truncateDoc sample_guide 200 = sample_guide"
  by code_simp+

lemma sample_known_paths:
  "get_property MIGRATION_PATHS ''vue'' = Own [''CHANGELOG.md'']"
  "get_property MIGRATION_PATHS ''pkg'' = Undefined"
  "get_property MIGRATION_PATHS (base_name ''pkg'') = Undefined"
  by code_simp+

text \<open>
  A changelog of two lines and a query that matches neither: the section is the text for
  the bound 200, and for the bound 1 the first line and the marker. A guide that the
  query does not match is the readme, the changelog and the migration guide returned,
  found by the known paths of \<open>vue\<close> and by the generic paths of \<open>pkg\<close>.
\<close>

theorem filterByQuery_no_match_full_text_witness:
  "filterByQuery latin1 short_changelog (Some ''stores'') 5 = short_changelog
   \<and> doc_section latin1 (Some ''stores'') short_changelog 200 = short_changelog
   \<and> doc_section latin1 (Some ''stores'') short_changelog 1
     = ''Added runes'' @ [CHR 0x0A, CHR 0x0A] @ ''... (truncated, 1 more lines)''
   \<and> doc_readme (fetch_readme latin1 docs_world sample_registry (Some (''acme'', ''pkg''))
        (Some ''stores'') (empty_result ''pkg'')) = sample_guide
   \<and> doc_changelog (fetch_changelog latin1 docs_world ''pkg'' (''acme'', ''pkg'')
        (Some ''stores'') (empty_result ''pkg'')) = sample_guide
   \<and> fetch_migration latin1 docs_world ''vue'' (''acme'', ''pkg'') (Some ''stores'') (empty_result ''vue'')
     = Inr ((empty_result ''vue'')\<lparr> doc_migrationGuide := sample_guide \<rparr>)
   \<and> fetch_migration latin1 docs_world ''pkg'' (''acme'', ''pkg'') (Some ''stores'') (empty_result ''pkg'')
     = Inr ((empty_result ''pkg'')\<lparr> doc_migrationGuide := sample_guide \<rparr>)"
proof -
  have q: "''stores'' \<noteq> []" by simp
  have n: "no_keyword_match latin1 short_changelog ''stores''"
    by code_simp
  have l: "length (split CHR 0x0A short_changelog) = 2"
    by code_simp
  have t: "join [CHR 0x0A] (take (Suc 0) (split CHR 0x0A short_changelog)) = ''Added runes''"
    "show_nat (Suc 0) = ''1''"
    by code_simp+
  note long = filterByQuery_no_match_full_text[OF q n, of 200]
  note short = filterByQuery_no_match_full_text[OF q n, of 1]
  have a: "filterByQuery latin1 short_changelog (Some ''stores'') 5 = short_changelog"
    by (rule long[THEN conjunct1])
  have b: "doc_section latin1 (Some ''stores'') short_changelog 200 = short_changelog"
    by (rule long[THEN conjunct2, THEN conjunct2, THEN conjunct1, THEN mp]) (simp add: l)
  have "doc_section latin1 (Some ''stores'') short_changelog 1 =
      join [CHR 0x0A] (take 1 (split CHR 0x0A short_changelog))
      @ [CHR 0x0A, CHR 0x0A] @ ''... (truncated, ''
      @ show_nat (length (split CHR 0x0A short_changelog) - 1) @ '' more lines)''"
    by (rule short[THEN conjunct2, THEN conjunct2, THEN conjunct2, THEN conjunct1, THEN mp])
      (simp add: l)
  then have c: "doc_section latin1 (Some ''stores'') short_changelog 1
     = ''Added runes'' @ [CHR 0x0A, CHR 0x0A] @ ''... (truncated, 1 more lines)''"
    by (simp add: l t)
  note vue = filterByQuery_no_match_full_text[OF q sample_guide_facts(2),
      where w = docs_world and npmJson = sample_registry and repo = "Some (''acme'', ''pkg'')"
        and gh = "(''acme'', ''pkg'')" and pkg = "''vue''" and paths = "[''CHANGELOG.md'']"
        and result = "empty_result ''vue''" and maxLines = 300]
  note pkg = filterByQuery_no_match_full_text[OF q sample_guide_facts(2),
      where w = docs_world and npmJson = sample_registry and repo = "Some (''acme'', ''pkg'')"
        and gh = "(''acme'', ''pkg'')" and pkg = "''pkg''" and paths = "[]"
        and result = "empty_result ''pkg''" and maxLines = 300]
  have "doc_readme (fetch_readme latin1 docs_world sample_registry (Some (''acme'', ''pkg''))
        (Some ''stores'') (empty_result ''pkg'')) = truncateDoc sample_guide 300"
    by (rule pkg[THEN conjunct2, THEN conjunct2, THEN conjunct2, THEN conjunct2, THEN conjunct1,
          THEN mp])
       (simp add: sample_guide_found sample_guide_facts(1) sample_registry_def or_empty_def)
  then have d: "doc_readme (fetch_readme latin1 docs_world sample_registry (Some (''acme'', ''pkg''))
        (Some ''stores'') (empty_result ''pkg'')) = sample_guide"
    by (simp only: sample_guide_facts(3))
  have "doc_changelog (fetch_changelog latin1 docs_world ''pkg'' (''acme'', ''pkg'')
        (Some ''stores'') (empty_result ''pkg'')) = truncateDoc sample_guide 200"
    by (rule pkg[THEN conjunct2, THEN conjunct2, THEN conjunct2, THEN conjunct2, THEN conjunct2,
          THEN conjunct1, THEN mp])
       (simp add: sample_guide_found sample_guide_facts(1))
  then have e: "doc_changelog (fetch_changelog latin1 docs_world ''pkg'' (''acme'', ''pkg'')
        (Some ''stores'') (empty_result ''pkg'')) = sample_guide"
    by (simp only: sample_guide_facts(4))
  have "fetch_migration latin1 docs_world ''vue'' (''acme'', ''pkg'') (Some ''stores'')
        (empty_result ''vue'')
     = Inr ((empty_result ''vue'')\<lparr> doc_migrationGuide := truncateDoc sample_guide 300 \<rparr>)"
    by (rule vue[THEN conjunct2, THEN conjunct2, THEN conjunct2, THEN conjunct2, THEN conjunct2,
          THEN conjunct2, THEN conjunct1, THEN mp])
       (simp add: sample_guide_found sample_guide_facts(1) sample_known_paths)
  then have f: "fetch_migration latin1 docs_world ''vue'' (''acme'', ''pkg'') (Some ''stores'')
        (empty_result ''vue'')
     = Inr ((empty_result ''vue'')\<lparr> doc_migrationGuide := sample_guide \<rparr>)"
    by (simp only: sample_guide_facts(3))
  have "fetch_migration latin1 docs_world ''pkg'' (''acme'', ''pkg'') (Some ''stores'')
        (empty_result ''pkg'')
     = Inr ((empty_result ''pkg'')\<lparr> doc_migrationGuide := truncateDoc sample_guide 300 \<rparr>)"
    by (rule pkg[THEN conjunct2, THEN conjunct2, THEN conjunct2, THEN conjunct2, THEN conjunct2,
          THEN conjunct2, THEN conjunct2, THEN mp])
       (simp add: sample_guide_found sample_guide_facts(1) sample_known_paths empty_result_def)
  then have g: "fetch_migration latin1 docs_world ''pkg'' (''acme'', ''pkg'') (Some ''stores'')
        (empty_result ''pkg'')
     = Inr ((empty_result ''pkg'')\<lparr> doc_migrationGuide := sample_guide \<rparr>)"
    by (simp only: sample_guide_facts(3))
  from a b c d e f g show ?thesis by blast
qed

section \<open>Properties of the documentation lookup\<close>

lemma fetch_migration_error:
  "isl (fetch_migration rt w pkg gh query result) \<longleftrightarrow>
     (case get_property MIGRATION_PATHS pkg of
        Undefined \<Rightarrow> get_property MIGRATION_PATHS (base_name pkg)
      | p \<Rightarrow> p) = Inherited"
  by (simp add: fetch_migration_def Let_def split: property.splits)

text \<open>
  When it raises. The registry's answer is unusable (the fetch gave nothing or an empty
  body, or the body does not parse), or the migration step reads an inherited property
  of the table of known paths.
\<close>

lemma fetchLibraryDocs_error_iff:
  "isl (fetchLibraryDocs rt w pkg query opts) \<longleftrightarrow>
     \<not> truthy (fetchUrl w (''https://registry.npmjs.org/'' @ encodeURIComponent w pkg))
     \<or> JSON_parse w (the (fetchUrl w (''https://registry.npmjs.org/'' @ encodeURIComponent w pkg))) = None
     \<or> (opts_migration opts \<noteq> Some False
        \<and> extractGitHubRepo (or_empty (npm_repository_url
              (the (JSON_parse w (the (fetchUrl w
                 (''https://registry.npmjs.org/'' @ encodeURIComponent w pkg))))))) \<noteq> None
        \<and> (case get_property MIGRATION_PATHS pkg of
              Undefined \<Rightarrow> get_property MIGRATION_PATHS (base_name pkg)
            | p \<Rightarrow> p) = Inherited)"
  by (auto simp: fetchLibraryDocs_def Let_def fetch_migration_error split: option.splits)

text \<open>
  For a package whose name and base name are not inherited keys of the table, only the
  registry's answer decides.
\<close>

lemma fetchLibraryDocs_error_iff_registry:
  assumes "get_property MIGRATION_PATHS pkg \<noteq> Inherited"
    and "get_property MIGRATION_PATHS (base_name pkg) \<noteq> Inherited"
  shows "isl (fetchLibraryDocs rt w pkg query opts) \<longleftrightarrow>
     \<not> truthy (fetchUrl w (''https://registry.npmjs.org/'' @ encodeURIComponent w pkg))
     \<or> JSON_parse w (the (fetchUrl w (''https://registry.npmjs.org/'' @ encodeURIComponent w pkg))) = None"
  using assms unfolding fetchLibraryDocs_error_iff
  by (auto split: property.splits)

text \<open>Fetches that all fail find nothing, and the sections they feed stay as they were.\<close>

lemma fetchFirstFound_all_failed:
  "\<forall>p \<in> set paths. fetchUrl w (raw_url owner repo p) = None \<Longrightarrow>
   fetchFirstFound w owner repo paths = []"
proof -
  assume "\<forall>p \<in> set paths. fetchUrl w (raw_url owner repo p) = None"
  then have "find (\<lambda>r. truthy r \<and> length (the r) > 50)
      (map (\<lambda>p. fetchUrl w (raw_url owner repo p)) paths) = None"
    by (auto simp: find_None_iff)
  then show ?thesis by (simp add: fetchFirstFound_def)
qed

lemma later_failures_leave_sections_empty:
  assumes "\<forall>url. fetchUrl w (raw_url (fst gh) (snd gh) url) = None"
  shows "doc_changelog (fetch_changelog rt w pkg gh query result) = doc_changelog result"
    and "get_property MIGRATION_PATHS pkg \<noteq> Inherited \<Longrightarrow>
         get_property MIGRATION_PATHS (base_name pkg) \<noteq> Inherited \<Longrightarrow>
         doc_migrationGuide result = [] \<Longrightarrow>
         fetch_migration rt w pkg gh query result = Inr result"
    and "or_empty (npm_readme npmJson) = [] \<Longrightarrow>
         doc_readme (fetch_readme rt w npmJson (Some gh) query result) = doc_readme result"
proof -
  have none: "fetchFirstFound w (fst gh) (snd gh) paths = []" for paths
    using assms by (intro fetchFirstFound_all_failed) simp
  show "doc_changelog (fetch_changelog rt w pkg gh query result) = doc_changelog result"
    by (simp add: fetch_changelog_def Let_def none)
  show "get_property MIGRATION_PATHS pkg \<noteq> Inherited \<Longrightarrow>
         get_property MIGRATION_PATHS (base_name pkg) \<noteq> Inherited \<Longrightarrow>
         doc_migrationGuide result = [] \<Longrightarrow>
         fetch_migration rt w pkg gh query result = Inr result"
    by (simp add: fetch_migration_def Let_def none split: property.splits)
  show "or_empty (npm_readme npmJson) = [] \<Longrightarrow>
         doc_readme (fetch_readme rt w npmJson (Some gh) query result) = doc_readme result"
    by (simp add: fetch_readme_def Let_def none)
qed

lemma sample_repository:
  "extractGitHubRepo (or_empty (npm_repository_url sample_registry)) = Some (''acme'', ''pkg'')"
  by code_simp

lemma constructor_inherited: "get_property MIGRATION_PATHS ''constructor'' = Inherited"
  by code_simp

text \<open>
  C7 fails on the code. For the package named \<open>constructor\<close>, the registry answering
  with parseable metadata that names a GitHub repository, the lookup of known migration
  paths finds the property inherited from \<open>Object.prototype\<close>, and \<open>fetchLibraryDocs\<close>
  raises a TypeError although the registry's answer was usable.
\<close>

theorem fetchLibraryDocs_inherited_key_raises:
  "truthy (fetchUrl (sample_world ''constructor'')
      (''https://registry.npmjs.org/'' @ encodeURIComponent (sample_world ''constructor'') ''constructor''))
   \<and> JSON_parse (sample_world ''constructor'')
        (the (fetchUrl (sample_world ''constructor'')
          (''https://registry.npmjs.org/'' @ encodeURIComponent (sample_world ''constructor'') ''constructor'')))
       = Some sample_registry
   \<and> fetchLibraryDocs latin1 (sample_world ''constructor'') ''constructor'' None all_sections = Inl TypeError"
proof -
  have "fetch_migration rt w ''constructor'' gh query result = Inl TypeError" for rt w gh query result
    by (simp add: fetch_migration_def Let_def constructor_inherited)
  then show ?thesis
    by (simp add: fetchLibraryDocs_def Let_def sample_world_def sample_repository all_sections_def)
qed

section \<open>Properties of the migration scan\<close>

lemma regex_test_reset: "fst (regex_test rt r 0 line) = matches_line rt r line"
  by (simp add: regex_test_def matches_line_def split: option.splits)

lemma line_loop_issues:
  "snd (line_loop rt pattern pp f lines i (li, issues)) =
     issues @ concat (map (line_issues rt pattern pp f) (enumerate i lines))"
proof (induction lines arbitrary: i li issues)
  case Nil
  then show ?case by simp
next
  case (Cons line lines)
  obtain found li' where t: "regex_test rt (pat_regex pattern) 0 line = (found, li')"
    by (cases "regex_test rt (pat_regex pattern) 0 line")
  then have f: "found = matches_line rt (pat_regex pattern) line"
    using regex_test_reset[of rt "pat_regex pattern" line] by simp
  show ?case
    using Cons.IH[of "Suc i" li']
    by (simp add: t f line_issues_def issue_of_def)
qed

lemma file_loop_issues:
  "snd (file_loop rt pp tree pattern files (li, issues)) =
     issues @ concat (map (file_issues rt pattern pp tree) files)"
proof (induction files arbitrary: li issues)
  case Nil
  then show ?case by simp
next
  case (Cons f files)
  show ?case
  proof (cases "readFileSync pp tree f")
    case None
    then show ?thesis using Cons.IH[of li issues] by (simp add: file_issues_def)
  next
    case (Some content)
    obtain li' issues' where
      l: "line_loop rt pattern pp f (split CHR 0x0A content) 0 (li, issues) = (li', issues')"
      by (cases "line_loop rt pattern pp f (split CHR 0x0A content) 0 (li, issues)")
    with line_loop_issues[of rt pattern pp f "split CHR 0x0A content" 0 li issues]
    have "issues' = issues
        @ concat (map (line_issues rt pattern pp f) (enumerate 0 (split CHR 0x0A content)))"
      by simp
    then show ?thesis using Cons.IH[of li' issues'] Some l by (simp add: file_issues_def)
  qed
qed

lemma pattern_loop_issues:
  "snd (pattern_loop rt pp tree patterns (cursor, issues)) =
     issues @ concat (map (pattern_issues rt pp tree) patterns)"
proof (induction patterns arbitrary: cursor issues)
  case Nil
  then show ?case by simp
next
  case (Cons pattern patterns)
  let ?files = "walkFiles pp tree (pat_fileExtensions pattern) 5 0"
  let ?src = "regex_source (pat_regex pattern)"
  obtain li' issues' where
    l: "file_loop rt pp tree pattern ?files (cursor ?src, issues) = (li', issues')"
    by (cases "file_loop rt pp tree pattern ?files (cursor ?src, issues)")
  with file_loop_issues[of rt pp tree pattern ?files "cursor ?src" issues]
  have eq: "issues' = issues @ pattern_issues rt pp tree pattern"
    by (simp add: pattern_issues_def)
  have step: "pattern_loop rt pp tree (pattern # patterns) (cursor, issues) =
      pattern_loop rt pp tree patterns (cursor(?src := li'), issues')"
    using l by (simp add: Let_def)
  show ?case
    unfolding step eq by (simp add: Cons.IH)
qed

lemma detectMigration_issues:
  "res_issues (snd (detectMigration rt cursor tree currentMajor pp name framework)) =
     (case applicable_rule rt framework currentMajor of
        None \<Rightarrow> []
      | Some rule \<Rightarrow> concat (map (pattern_issues rt pp tree) (rule_patterns rule)))"
proof -
  let ?P = "\<lambda>r. toLowerCase rt (rule_framework r) =
      replace_first ''next.js'' ''next'' (replace_first ''sveltekit'' ''svelte'' (toLowerCase rt framework))
      \<and> rule_fromMajor r = the currentMajor"
  have find_filter: "find ?P xs = (case filter ?P xs of [] \<Rightarrow> None | x # _ \<Rightarrow> Some x)"
    for xs :: "MigrationRule list"
    by (induction xs) auto
  show ?thesis
  proof (cases "truthy_major currentMajor")
    case False
    then show ?thesis by (simp add: detectMigration_def applicable_rule_def)
  next
    case True
    show ?thesis
    proof (cases "filter ?P MIGRATION_RULES")
      case Nil
      then show ?thesis using True
        by (simp add: detectMigration_def applicable_rule_def find_filter Let_def)
    next
      case (Cons rule rest)
      obtain c' issues' where
        l: "pattern_loop rt pp tree (rule_patterns rule) (cursor, []) = (c', issues')"
        by (cases "pattern_loop rt pp tree (rule_patterns rule) (cursor, [])")
      with pattern_loop_issues[of rt pp tree "rule_patterns rule" cursor "[]"]
      have "issues' = concat (map (pattern_issues rt pp tree) (rule_patterns rule))" by simp
      then show ?thesis using True Cons l
        by (simp add: detectMigration_def applicable_rule_def find_filter Let_def)
    qed
  qed
qed

lemma detectMigration_needed:
  "res_migrationNeeded (snd (detectMigration rt cursor tree currentMajor pp name framework)) \<longleftrightarrow>
   res_issues (snd (detectMigration rt cursor tree currentMajor pp name framework)) \<noteq> []"
  by (auto simp: detectMigration_def Let_def split: prod.splits)

lemma plain_segment_free: "plain_segment n \<Longrightarrow> CHR ''/'' \<notin> set n"
  by (simp add: plain_segment_def)

lemma plain_segment_nonempty: "plain_segment n \<Longrightarrow> n \<noteq> []"
  by (simp add: plain_segment_def)

lemma norm_step_plain: "plain_segment n \<Longrightarrow> norm_step a res n = res @ [n]"
  by (auto simp: norm_step_def plain_segment_def)

lemma foldl_plain: "list_all plain_segment ps \<Longrightarrow> foldl (norm_step a) acc ps = acc @ ps"
  by (induction ps arbitrary: acc) (simp_all add: norm_step_plain)

lemma norm_step_up: "norm_step True (replicate j ''..'') ''..'' = replicate (Suc j) ''..''"
  by (cases j) (simp_all add: norm_step_def replicate_append_same)

lemma foldl_ups:
  "foldl (norm_step True) (replicate j ''..'') (replicate k ''..'') = replicate (j + k) ''..''"
proof (induction k arbitrary: j)
  case 0
  then show ?case by simp
next
  case (Suc k)
  have "foldl (norm_step True) (replicate j ''..'') (replicate (Suc k) ''..'')
      = foldl (norm_step True) (norm_step True (replicate j ''..'') ''..'') (replicate k ''..'')"
    by simp
  also have "\<dots> = foldl (norm_step True) (replicate (Suc j) ''..'') (replicate k ''..'')"
    by (simp only: norm_step_up)
  also have "\<dots> = replicate (Suc j + k) ''..''"
    by (rule Suc)
  finally show ?case by simp
qed

lemma norm_step_normal:
  assumes "res = replicate k ''..'' @ ps" and "list_all plain_segment ps" and "k = 0 \<or> a"
    and "CHR ''/'' \<notin> set seg"
  shows "\<exists>k' ps'. norm_step a res seg = replicate k' ''..'' @ ps'
           \<and> list_all plain_segment ps' \<and> (k' = 0 \<or> a)"
proof -
  consider "seg = [] \<or> seg = ''.''" | "seg = ''..''" "ps \<noteq> []" | "seg = ''..''" "ps = []"
    | "plain_segment seg"
    using assms(4) by (auto simp: plain_segment_def)
  then show ?thesis
  proof cases
    case 1
    then have "norm_step a res seg = res" by (auto simp: norm_step_def)
    with assms show ?thesis by blast
  next
    case 2
    from 2(2) assms(2) have "plain_segment (last ps)" by (simp add: list_all_iff)
    then have l: "last ps \<noteq> ''..''" by (auto simp: plain_segment_def)
    have "norm_step a res seg = replicate k ''..'' @ butlast ps"
      using 2 l assms(1) by (simp add: norm_step_def butlast_append)
    moreover have "list_all plain_segment (butlast ps)"
      using assms(2) by (auto simp: list_all_iff dest: in_set_butlastD)
    ultimately show ?thesis using assms(3) by blast
  next
    case 3
    show ?thesis
    proof (cases a)
      case True
      have "norm_step a res seg = replicate (Suc k) ''..'' @ []"
        using 3 True assms(1) norm_step_up[of k] by simp
      then show ?thesis using True by (intro exI[of _ "Suc k"] exI[of _ "[]"]) simp
    next
      case False
      with assms(3) have "k = 0" by simp
      with 3 assms(1) False have "norm_step a res seg = replicate 0 ''..'' @ []"
        by (simp add: norm_step_def)
      then show ?thesis by (intro exI[of _ 0] exI[of _ "[]"]) simp
    qed
  next
    case 4
    then have "norm_step a res seg = replicate k ''..'' @ (ps @ [seg])"
      using assms(1) by (simp add: norm_step_plain)
    moreover have "list_all plain_segment (ps @ [seg])" using 4 assms(2) by simp
    ultimately show ?thesis using assms(3) by blast
  qed
qed

lemma foldl_normal:
  "\<forall>s \<in> set xs. CHR ''/'' \<notin> set s \<Longrightarrow>
   \<exists>k ps. foldl (norm_step a) [] xs = replicate k ''..'' @ ps
     \<and> list_all plain_segment ps \<and> (k = 0 \<or> a)"
proof (induction xs rule: rev_induct)
  case Nil
  show ?case by (intro exI[of _ 0] exI[of _ "[]"]) simp
next
  case (snoc x xs)
  then obtain k ps where "foldl (norm_step a) [] xs = replicate k ''..'' @ ps"
    "list_all plain_segment ps" "k = 0 \<or> a" by auto
  from norm_step_normal[OF this, of x] snoc.prems show ?case by simp
qed

lemma foldl_idem:
  assumes "res = replicate k ''..'' @ ps" and "list_all plain_segment ps" and "k = 0 \<or> a"
  shows "foldl (norm_step a) [] res = res"
proof (cases "k = 0")
  case True
  with assms(1) have "res = ps" by simp
  with assms(2) show ?thesis by (simp only: foldl_plain append_Nil)
next
  case False
  with assms(3) have a: "a = True" by simp
  have "foldl (norm_step True) [] (replicate k ''..'') = replicate k ''..''"
    using foldl_ups[of 0 k] by (simp only: replicate_0 add_0)
  then have "foldl (norm_step True) [] (replicate k ''..'' @ ps) = replicate k ''..'' @ ps"
    using assms(2) by (simp only: foldl_append foldl_plain)
  then show ?thesis unfolding a assms(1) .
qed

lemma path_segments_normal:
  "\<exists>k ps. path_segments dir = replicate k ''..'' @ ps
     \<and> list_all plain_segment ps \<and> (k = 0 \<or> path_root dir = [])"
proof -
  have "\<forall>s \<in> set (split CHR ''/'' dir). CHR ''/'' \<notin> set s"
    using split_pieces_free by blast
  then show ?thesis unfolding path_segments_def by (rule foldl_normal)
qed

lemma path_segments_free: "s \<in> set (path_segments dir) \<Longrightarrow> CHR ''/'' \<notin> set s"
proof -
  assume s: "s \<in> set (path_segments dir)"
  from path_segments_normal[of dir] obtain k ps where
    R: "path_segments dir = replicate k ''..'' @ ps" and ps: "list_all plain_segment ps" by blast
  from s R have "s \<in> set (replicate k ''..'') \<or> s \<in> set ps" by simp
  then show ?thesis
  proof
    assume "s \<in> set (replicate k ''..'')"
    then have "s = ''..''" by (simp only: in_set_replicate)
    then show ?thesis by simp
  next
    assume "s \<in> set ps"
    with ps have "plain_segment s" by (simp add: list_all_iff)
    then show ?thesis by (rule plain_segment_free)
  qed
qed

lemma path_segments_nonempty: "s \<in> set (path_segments dir) \<Longrightarrow> s \<noteq> []"
proof -
  assume s: "s \<in> set (path_segments dir)"
  from path_segments_normal[of dir] obtain k ps where
    R: "path_segments dir = replicate k ''..'' @ ps" and ps: "list_all plain_segment ps" by blast
  from s R have "s \<in> set (replicate k ''..'') \<or> s \<in> set ps" by simp
  then show ?thesis
  proof
    assume "s \<in> set (replicate k ''..'')"
    then have "s = ''..''" by (simp only: in_set_replicate)
    then show ?thesis by simp
  next
    assume "s \<in> set ps"
    with ps have "plain_segment s" by (simp add: list_all_iff)
    then show ?thesis by (rule plain_segment_nonempty)
  qed
qed

lemma path_segments_empty: "path_segments [] = []"
  by (simp add: path_segments_def norm_step_def)

lemma path_normalize_unfold:
  assumes "path \<noteq> []" and "last path \<noteq> CHR ''/''"
    and "normalizeString path (hd path \<noteq> CHR ''/'') \<noteq> []"
  shows "path_normalize path =
           (if hd path = CHR ''/'' then ''/'' else []) @ normalizeString path (hd path \<noteq> CHR ''/'')"
proof -
  have "path_normalize path =
      (let p = normalizeString path (hd path \<noteq> CHR ''/'')
       in if p = [] then (if hd path = CHR ''/'' then ''/'' else ''.'')
          else (if hd path = CHR ''/'' then ''/'' else []) @ p)"
    using assms(1,2) unfolding path_normalize_def Let_def by simp
  with assms(3) show ?thesis unfolding Let_def by simp
qed

lemma path_join_unfold:
  "n \<noteq> [] \<Longrightarrow>
   path_join dir n = path_normalize (if dir = [] then n else dir @ ''/'' @ n)"
  unfolding path_join_def Let_def by simp

lemma path_join_plain:
  assumes "plain_segment n"
  shows "path_join dir n = path_root dir @ join ''/'' (path_segments dir @ [n])"
proof -
  from assms have n: "n \<noteq> []" "CHR ''/'' \<notin> set n" by (simp_all add: plain_segment_def)
  then have l: "last n \<noteq> CHR ''/''" by (metis last_in_set)
  from n have h: "hd n \<noteq> CHR ''/''" by (cases n) auto
  show ?thesis
  proof (cases "dir = []")
    case True
    have ns: "normalizeString n (hd n \<noteq> CHR ''/'') = n"
      using assms n by (simp add: normalizeString_def split_last_piece norm_step_plain)
    have "path_normalize n = n"
      using path_normalize_unfold[of n] n(1) l h ns by simp
    moreover have "path_root dir = []" "path_segments dir = []"
      using True by (simp_all add: path_root_def path_segments_empty)
    ultimately show ?thesis
      using True n(1) by (simp add: path_join_unfold)
  next
    case False
    let ?p = "dir @ ''/'' @ n"
    have hp: "hd ?p = hd dir" using False by simp
    have lp: "last ?p \<noteq> CHR ''/''" using n(1) l by simp
    have a: "(path_root dir = []) = (hd ?p \<noteq> CHR ''/'')"
      using False by (simp add: path_root_def)
    have s: "split CHR ''/'' ?p = split CHR ''/'' dir @ [n]"
      using n by (simp add: split_append_sep split_last_piece)
    have ns: "normalizeString ?p (hd ?p \<noteq> CHR ''/'') = join ''/'' (path_segments dir @ [n])"
      unfolding normalizeString_def s a[symmetric] path_segments_def
      using assms by (simp add: norm_step_plain)
    have ne: "join ''/'' (path_segments dir @ [n]) \<noteq> []"
      using n(1) by (simp add: join_snoc)
    have pn: "path_normalize ?p =
        (if hd ?p = CHR ''/'' then ''/'' else []) @ join ''/'' (path_segments dir @ [n])"
      using path_normalize_unfold[of ?p] lp ne unfolding ns by simp
    have pr: "(if hd ?p = CHR ''/'' then ''/'' else []) = path_root dir"
      using False by (simp add: path_root_def)
    have pj: "path_join dir n = path_normalize ?p"
      using path_join_unfold[OF n(1), of dir] False by simp
    show ?thesis unfolding pj pn pr ..
  qed
qed

lemma join_hd:
  "xs \<noteq> [] \<Longrightarrow> hd xs \<noteq> [] \<Longrightarrow> join sep xs \<noteq> [] \<and> hd (join sep xs) = hd (hd xs)"
  by (induction sep xs rule: join.induct) auto

lemma path_join_root_segments:
  assumes "plain_segment n"
  shows "path_root (path_join dir n) = path_root dir"
    and "path_segments (path_join dir n) = path_segments dir @ [n]"
proof -
  let ?R = "path_segments dir"
  from path_segments_normal[of dir] obtain k ps where
    R: "?R = replicate k ''..'' @ ps" "list_all plain_segment ps" "k = 0 \<or> path_root dir = []"
    by auto
  have free: "\<forall>s \<in> set (?R @ [n]). CHR ''/'' \<notin> set s"
    using assms by (auto dest: path_segments_free plain_segment_free)
  have ne: "\<forall>s \<in> set (?R @ [n]). s \<noteq> []"
    using assms by (auto dest: path_segments_nonempty plain_segment_nonempty)
  then have h: "hd (?R @ [n]) \<noteq> []" by (cases ?R) auto
  have h': "hd (hd (?R @ [n])) \<noteq> CHR ''/''"
  proof -
    have "hd (?R @ [n]) \<in> set (?R @ [n])" by (cases ?R) auto
    with free have "CHR ''/'' \<notin> set (hd (?R @ [n]))" by blast
    with h show ?thesis by (cases "hd (?R @ [n])") auto
  qed
  from join_hd[of "?R @ [n]" "''/''"] h
  have j: "join ''/'' (?R @ [n]) \<noteq> []" "hd (join ''/'' (?R @ [n])) = hd (hd (?R @ [n]))"
    by simp_all
  have pj: "path_join dir n = path_root dir @ join ''/'' (?R @ [n])"
    using assms by (rule path_join_plain)
  show root: "path_root (path_join dir n) = path_root dir"
    unfolding pj using j h' by (auto simp: path_root_def)
  have sp: "split CHR ''/'' (join ''/'' (?R @ [n])) = ?R @ [n]"
    using split_join[of "?R @ [n]" "CHR ''/''"] free by simp
  have idem: "foldl (norm_step (path_root dir = [])) [] ?R = ?R"
    using R by (rule foldl_idem)
  have "foldl (norm_step (path_root dir = [])) [] (split CHR ''/'' (path_join dir n)) = ?R @ [n]"
  proof (cases "path_root dir = []")
    case True
    then show ?thesis unfolding pj using sp idem assms by (simp add: norm_step_plain)
  next
    case False
    then have "path_root dir = ''/''" by (simp add: path_root_def split: if_splits)
    moreover have "norm_step (path_root dir = []) [] [] = []" by (simp add: norm_step_def)
    ultimately show ?thesis unfolding pj using sp idem assms
      by (simp add: norm_step_plain)
  qed
  then show "path_segments (path_join dir n) = ?R @ [n]"
    unfolding path_segments_def[of "path_join dir n"] root .
qed

lemma path_below_Cons: "path_below dir (n # ns) = path_below (path_join dir n) ns"
  by (simp add: path_below_def)

lemma path_below_plain:
  "names \<noteq> [] \<Longrightarrow> list_all plain_segment names \<Longrightarrow>
   path_below dir names = path_root dir @ join ''/'' (path_segments dir @ names)"
proof (induction names arbitrary: dir)
  case Nil
  then show ?case by simp
next
  case (Cons n names)
  show ?case
  proof (cases "names = []")
    case True
    with Cons.prems show ?thesis by (simp add: path_below_def path_join_plain)
  next
    case False
    from Cons.prems have n: "plain_segment n" and ns: "list_all plain_segment names" by simp_all
    from Cons.IH[OF False ns, of "path_join dir n"] show ?thesis
      by (simp add: path_below_Cons path_join_root_segments[OF n])
  qed
qed

lemma path_below_inj:
  assumes "ns \<noteq> []" and "list_all plain_segment ns" and "ms \<noteq> []" and "list_all plain_segment ms"
    and "path_below dir ns = path_below dir ms"
  shows "ns = ms"
proof -
  let ?R = "path_segments dir"
  from assms have "join ''/'' (?R @ ns) = join ''/'' (?R @ ms)"
    by (simp add: path_below_plain)
  then have "split CHR ''/'' (join ''/'' (?R @ ns)) = split CHR ''/'' (join ''/'' (?R @ ms))"
    by simp
  moreover have "\<forall>s \<in> set (?R @ ns). CHR ''/'' \<notin> set s"
    using assms(2) by (auto dest: path_segments_free plain_segment_free simp: list_all_iff)
  then have "split CHR ''/'' (join ''/'' (?R @ ns)) = ?R @ ns"
    using split_join[of "?R @ ns" "CHR ''/''"] assms(1) by simp
  moreover have "\<forall>s \<in> set (?R @ ms). CHR ''/'' \<notin> set s"
    using assms(4) by (auto dest: path_segments_free plain_segment_free simp: list_all_iff)
  then have "split CHR ''/'' (join ''/'' (?R @ ms)) = ?R @ ms"
    using split_join[of "?R @ ms" "CHR ''/''"] assms(3) by simp
  ultimately show ?thesis by simp
qed

lemma takeWhile_replicate:
  "takeWhile (\<lambda>s. s = x) xs = replicate (length (takeWhile (\<lambda>s. s = x) xs)) x"
  by (induction xs) auto

lemma normal_path_segments:
  assumes "normal_path pp"
  shows "pp = path_root pp @ join ''/'' (path_segments pp)" and "path_segments pp \<noteq> []"
proof -
  obtain first rest where sp: "split CHR ''/'' pp = first # rest"
    using split_not_Nil[of "CHR ''/''" pp] by (cases "split CHR ''/'' pp") auto
  have js: "pp = join ''/'' (first # rest)"
    using join_split[of "CHR ''/''" pp] sp by simp
  have "pp = path_root pp @ join ''/'' (path_segments pp) \<and> path_segments pp \<noteq> []"
  proof (cases "first = []")
    case True
    with assms sp have rest: "rest \<noteq> []" "list_all plain_segment rest"
      by (simp_all add: normal_path_def)
    from rest(1) obtain y ys where r: "rest = y # ys" by (cases rest) auto
    have pp: "pp = ''/'' @ join ''/'' rest" unfolding js True r by simp
    then have root: "path_root pp = ''/''" by (simp add: path_root_def)
    have e: "norm_step False [] [] = []" by (simp add: norm_step_def)
    have "path_segments pp = rest"
      unfolding path_segments_def sp True root using rest(2) by (simp add: e foldl_plain)
    with pp root rest(1) show ?thesis by simp
  next
    case False
    let ?xs = "first # rest"
    let ?k = "length (takeWhile (\<lambda>s. s = ''..'') ?xs)"
    from assms sp False have pl: "list_all plain_segment (dropWhile (\<lambda>s. s = ''..'') ?xs)"
      by (simp add: normal_path_def)
    have "first \<in> set (split CHR ''/'' pp)" using sp by simp
    then have "CHR ''/'' \<notin> set first" by (rule split_pieces_free)
    with False have "hd first \<noteq> CHR ''/''" by (cases first) auto
    moreover have "pp \<noteq> [] \<and> hd pp = hd first"
      using join_hd[of ?xs "''/''"] False unfolding js by simp
    ultimately have root: "path_root pp = []" by (simp add: path_root_def)
    have "?xs = replicate ?k ''..'' @ dropWhile (\<lambda>s. s = ''..'') ?xs"
      using takeWhile_dropWhile_id[of "\<lambda>s. s = ''..''" ?xs]
        takeWhile_replicate[of "''..''" ?xs] by simp
    from foldl_idem[OF this pl, of True] have "foldl (norm_step True) [] ?xs = ?xs" by simp
    then have "path_segments pp = ?xs"
      unfolding path_segments_def sp root by simp
    with js root show ?thesis by simp
  qed
  then show "pp = path_root pp @ join ''/'' (path_segments pp)" and "path_segments pp \<noteq> []"
    by simp_all
qed

lemma path_below_normal:
  assumes "normal_path pp" and "names \<noteq> []" and "list_all plain_segment names"
  shows "path_below pp names = pp @ ''/'' @ join ''/'' names"
proof -
  have "path_below pp names = path_root pp @ join ''/'' (path_segments pp @ names)"
    using assms(2,3) by (rule path_below_plain)
  also have "\<dots> = (path_root pp @ join ''/'' (path_segments pp)) @ ''/'' @ join ''/'' names"
    using normal_path_segments(2)[OF assms(1)] assms(2) by (simp add: join_append)
  finally show ?thesis
    using normal_path_segments(1)[OF assms(1)] by simp
qed

lemma file_names_nonempty:
  "file_at l names \<Longrightarrow> names \<noteq> []"
  "file_among es names \<Longrightarrow> names \<noteq> []"
  by (induction l names and es names rule: file_at_file_among.induct) auto

lemma file_names_plain:
  "wf_tree l \<Longrightarrow> file_at l names \<Longrightarrow> list_all plain_segment names"
  "wf_entries es \<Longrightarrow> file_among es names \<Longrightarrow> list_all plain_segment names"
  by (induction l names and es names rule: file_at_file_among.induct)
     (auto split: list.splits)

lemma file_among_head:
  "file_among es names \<Longrightarrow> hd names \<in> entry_name ` set es"
proof (induction es)
  case Nil
  then show ?case by simp
next
  case (Cons e es)
  then show ?case by (cases e) (auto split: list.splits)
qed

text \<open>
  Every path the walk returns is the path of a file of the tree, reached from the
  directory through names none of which starts with a dot.
\<close>

lemma walk_components:
  "p \<in> set (walkFiles dir l exts md d) \<Longrightarrow>
     \<exists>names. file_at l names \<and> visible_names names \<and> p = path_below dir names"
  "p \<in> set (walk_entries dir es exts md d) \<Longrightarrow>
     \<exists>names. file_among es names \<and> visible_names names \<and> p = path_below dir names"
proof (induction dir l exts md d and dir es exts md d arbitrary: p and p
    rule: walkFiles_walk_entries.induct)
  case (1 dir extensions maxDepth depth)
  then show ?case by simp
next
  case (2 dir entries extensions maxDepth depth)
  from 2(2) have le: "\<not> maxDepth < depth"
    and mem: "p \<in> set (walk_entries dir entries extensions maxDepth depth)"
    by (auto split: if_splits)
  from 2(1)[OF le mem] show ?case by simp
next
  case (3 dir extensions maxDepth depth)
  then show ?case by simp
next
  case (4 dir name content rest extensions maxDepth depth)
  show ?case
  proof (cases "p = path_join dir name \<and> \<not> startsWith name ''.''")
    case True
    then have "file_among (File name content # rest) [name] \<and> visible_names [name]
        \<and> p = path_below dir [name]"
      by (simp add: path_below_def visible_names_def)
    then show ?thesis by blast
  next
    case False
    with 4(3) have "p \<in> set (walk_entries dir rest extensions maxDepth depth)"
      by (auto split: if_splits)
    then obtain names where "file_among rest names" "visible_names names"
      "p = path_below dir names"
      using 4(1)[of p] 4(2)[of p] by (cases "startsWith name ''.'' \<or> name \<in> set SKIP_DIRS") auto
    then have "file_among (File name content # rest) names \<and> visible_names names
        \<and> p = path_below dir names" by simp
    then show ?thesis by blast
  qed
next
  case (5 dir name l rest extensions maxDepth depth)
  show ?case
  proof (cases "startsWith name ''.'' \<or> name \<in> set SKIP_DIRS")
    case True
    with 5(4) have "p \<in> set (walk_entries dir rest extensions maxDepth depth)" by simp
    from 5(1)[OF True this] obtain names where "file_among rest names" "visible_names names"
      "p = path_below dir names" by auto
    then have "file_among (Dir name l # rest) names \<and> visible_names names
        \<and> p = path_below dir names" by simp
    then show ?thesis by blast
  next
    case False
    with 5(4) consider
      "p \<in> set (walkFiles (path_join dir name) l extensions maxDepth (depth + 1))"
      | "p \<in> set (walk_entries dir rest extensions maxDepth depth)"
      by auto
    then show ?thesis
    proof cases
      case 1
      from 5(2)[OF False 1] obtain names where
        n: "file_at l names" "visible_names names" "p = path_below (path_join dir name) names"
        by auto
      with False have "file_among (Dir name l # rest) (name # names)
          \<and> visible_names (name # names) \<and> p = path_below dir (name # names)"
        by (simp add: path_below_Cons visible_names_def)
      then show ?thesis by blast
    next
      case 2
      from 5(3)[OF False 2] obtain names where "file_among rest names" "visible_names names"
        "p = path_below dir names" by auto
      then have "file_among (Dir name l # rest) names \<and> visible_names names
          \<and> p = path_below dir names" by simp
      then show ?thesis by blast
    qed
  qed
qed

text \<open>In a well-formed tree the walk returns no path twice, whatever the directory.\<close>

lemma walk_distinct:
  "wf_tree l \<Longrightarrow> distinct (walkFiles dir l exts md d)"
  "wf_entries es \<Longrightarrow> distinct (map entry_name es) \<Longrightarrow> distinct (walk_entries dir es exts md d)"
proof (induction dir l exts md d and dir es exts md d rule: walkFiles_walk_entries.induct)
  case (1 dir extensions maxDepth depth)
  then show ?case by simp
next
  case (2 dir entries extensions maxDepth depth)
  then show ?case by simp
next
  case (3 dir extensions maxDepth depth)
  then show ?case by simp
next
  case (4 dir name content rest extensions maxDepth depth)
  from 4(3,4) have wf: "plain_segment name" "wf_entries rest" "distinct (map entry_name rest)"
    "name \<notin> entry_name ` set rest" by simp_all
  have rest: "distinct (walk_entries dir rest extensions maxDepth depth)"
    using 4(1)[OF _ wf(2,3)] 4(2)[OF _ wf(2,3)]
    by (cases "startsWith name ''.'' \<or> name \<in> set SKIP_DIRS") auto
  have "path_join dir name \<notin> set (walk_entries dir rest extensions maxDepth depth)"
  proof
    assume "path_join dir name \<in> set (walk_entries dir rest extensions maxDepth depth)"
    from walk_components(2)[OF this] obtain names where
      n: "file_among rest names" "path_join dir name = path_below dir names" by auto
    have "path_below dir [name] = path_below dir names"
      using n(2) by (simp add: path_below_def)
    moreover have "list_all plain_segment [name]" using wf(1) by simp
    ultimately have "[name] = names"
      using path_below_inj[of "[name]" names dir] file_names_nonempty(2)[OF n(1)]
        file_names_plain(2)[OF wf(2) n(1)] by simp
    with file_among_head[OF n(1)] wf(4) show False by auto
  qed
  with rest show ?case by simp
next
  case (5 dir name l rest extensions maxDepth depth)
  from 5(4,5) have wf: "plain_segment name" "wf_tree l" "wf_entries rest"
    "distinct (map entry_name rest)" "name \<notin> entry_name ` set rest" by simp_all
  show ?case
  proof (cases "startsWith name ''.'' \<or> name \<in> set SKIP_DIRS")
    case True
    from 5(1)[OF True wf(3,4)] True show ?thesis by simp
  next
    case False
    have a: "distinct (walkFiles (path_join dir name) l extensions maxDepth (depth + 1))"
      by (rule 5(2)[OF False wf(2)])
    have b: "distinct (walk_entries dir rest extensions maxDepth depth)"
      by (rule 5(3)[OF False wf(3,4)])
    have "set (walkFiles (path_join dir name) l extensions maxDepth (depth + 1))
        \<inter> set (walk_entries dir rest extensions maxDepth depth) = {}"
    proof (rule ccontr)
      assume "\<not> ?thesis"
      then obtain p where
        p1: "p \<in> set (walkFiles (path_join dir name) l extensions maxDepth (depth + 1))"
        and p2: "p \<in> set (walk_entries dir rest extensions maxDepth depth)" by auto
      from walk_components(1)[OF p1] obtain ms where
        m: "file_at l ms" "p = path_below (path_join dir name) ms" by auto
      then have e1: "p = path_below dir (name # ms)" by (simp add: path_below_Cons)
      from walk_components(2)[OF p2] obtain ns where
        n: "file_among rest ns" "p = path_below dir ns" by auto
      have "list_all plain_segment (name # ms)"
        using wf(1) file_names_plain(1)[OF wf(2) m(1)] by simp
      then have "name # ms = ns"
        using path_below_inj[of "name # ms" ns dir] file_names_nonempty(2)[OF n(1)]
          file_names_plain(2)[OF wf(3) n(1)] e1 n(2) by simp
      with file_among_head[OF n(1)] wf(5) show False by auto
    qed
    with a b False show ?thesis by simp
  qed
qed

lemma startsWith_append: "startsWith (p @ s) p"
  by (induction p) auto

lemma replace_first_prefix: "replace_first p r (p @ s) = r @ s"
proof (cases "p @ s")
  case Nil
  then show ?thesis by simp
next
  case (Cons a list)
  have sw: "startsWith (a # list) p" using startsWith_append[of p s] Cons by simp
  have "drop (length p) (a # list) = s" using Cons[symmetric] by simp
  then show ?thesis using sw Cons by simp
qed

text \<open>
  Below a normal project path, the name reported for a file of a well-formed tree is the
  chain of its names joined by slashes.
\<close>

lemma relative_path:
  assumes "normal_path pp" and "names \<noteq> []" and "list_all plain_segment names"
  shows "replace_first (pp @ ''/'') [] (path_below pp names) = join ''/'' names"
  using replace_first_prefix[of "pp @ ''/''" "[]" "join ''/'' names"]
  by (simp add: path_below_normal[OF assms])

lemma relative_names:
  assumes "wf_tree tree" and "normal_path pp" and "f \<in> set (walkFiles pp tree exts md d)"
  shows "\<exists>names. names \<noteq> [] \<and> list_all plain_segment names \<and> visible_names names
           \<and> f = path_below pp names
           \<and> replace_first (pp @ ''/'') [] f = join ''/'' names"
proof -
  from walk_components(1)[OF assms(3)] obtain names where
    n: "file_at tree names" "visible_names names" "f = path_below pp names" by auto
  have ne: "names \<noteq> []" using n(1) by (rule file_names_nonempty)
  have pl: "list_all plain_segment names" using assms(1) n(1) by (rule file_names_plain)
  from relative_path[OF assms(2) ne pl] n ne pl show ?thesis by auto
qed

lemma walkFiles_not_hidden:
  assumes "wf_tree tree" and "normal_path pp" and "f \<in> set (walkFiles pp tree exts md d)"
  shows "\<not> hidden_component (replace_first (pp @ ''/'') [] f)"
proof -
  from relative_names[OF assms] obtain names where
    n: "names \<noteq> []" "list_all plain_segment names" "visible_names names"
    "replace_first (pp @ ''/'') [] f = join ''/'' names" by auto
  have "\<forall>s \<in> set names. CHR ''/'' \<notin> set s"
    using n(2) by (auto simp: list_all_iff dest: plain_segment_free)
  then have "split CHR ''/'' (join ''/'' names) = names"
    using split_join[of names "CHR ''/''"] n(1) by simp
  with n(3,4) show ?thesis
    by (simp add: hidden_component_def visible_names_def list_all_iff list_ex_iff)
qed

lemma relative_path_inj:
  assumes "wf_tree tree" and "normal_path pp"
  shows "inj_on (replace_first (pp @ ''/'') []) (set (walkFiles pp tree exts md d))"
proof (rule inj_onI)
  fix p q
  assume p: "p \<in> set (walkFiles pp tree exts md d)" and q: "q \<in> set (walkFiles pp tree exts md d)"
    and eq: "replace_first (pp @ ''/'') [] p = replace_first (pp @ ''/'') [] q"
  from relative_names[OF assms p] obtain ns where
    n: "ns \<noteq> []" "list_all plain_segment ns" "p = path_below pp ns"
    "replace_first (pp @ ''/'') [] p = join ''/'' ns" by auto
  from relative_names[OF assms q] obtain ms where
    m: "ms \<noteq> []" "list_all plain_segment ms" "q = path_below pp ms"
    "replace_first (pp @ ''/'') [] q = join ''/'' ms" by auto
  from eq n(4) m(4) have "join ''/'' ns = join ''/'' ms" by simp
  then show "p = q"
    unfolding n(3) m(3) by (simp add: path_below_normal[OF assms(2)] n m)
qed

lemma issue_origin:
  assumes "i \<in> set (res_issues (snd (detectMigration rt cursor tree currentMajor pp name framework)))"
  shows "\<exists>pattern f n. f \<in> set (walkFiles pp tree (pat_fileExtensions pattern) 5 0)
           \<and> i = issue_of pattern pp f n"
  using assms unfolding detectMigration_issues
  by (auto simp: pattern_issues_def file_issues_def line_issues_def
      split: option.splits if_splits)

lemma distinct_concat_key:
  assumes "distinct (map h xs)"
    and "\<And>x. x \<in> set xs \<Longrightarrow> distinct (map t (f x))"
    and "\<And>x y. x \<in> set xs \<Longrightarrow> y \<in> set (f x) \<Longrightarrow> k (t y) = h x"
  shows "distinct (map t (concat (map f xs)))"
  using assms
proof (induction xs)
  case Nil
  then show ?case by simp
next
  case (Cons x xs)
  have "t ` set (f x) \<inter> t ` (\<Union>x' \<in> set xs. set (f x')) = {}"
  proof (rule ccontr)
    assume "\<not> ?thesis"
    then obtain y y' x' where "y \<in> set (f x)" "x' \<in> set xs" "y' \<in> set (f x')" "t y = t y'"
      by auto
    with Cons.prems(3)[of x y] Cons.prems(3)[of x' y'] have "h x = h x'" by simp
    with \<open>x' \<in> set xs\<close> Cons.prems(1) show False by auto
  qed
  moreover have "distinct (map t (concat (map f xs)))"
    using Cons.prems by (intro Cons.IH) auto
  moreover have "distinct (map t (f x))" using Cons.prems(2) by simp
  ultimately show ?case by simp
qed

lemma line_issues_distinct:
  "distinct (map issue_triple (concat (map (line_issues rt pattern pp f) (enumerate i lines))))"
proof (rule distinct_concat_key[where h = "\<lambda>il. Suc (fst il)" and k = "\<lambda>t. fst (snd t)"])
  have "map (\<lambda>il. Suc (fst il)) xs = map Suc (map fst xs)" for xs :: "(nat \<times> string) list"
    by (induction xs) auto
  then show "distinct (map (\<lambda>il. Suc (fst il)) (enumerate i lines))"
    by (simp add: distinct_map del: map_map)
next
  fix x assume "x \<in> set (enumerate i lines)"
  show "distinct (map issue_triple (line_issues rt pattern pp f x))"
    by (simp add: line_issues_def)
next
  fix x y assume "x \<in> set (enumerate i lines)" "y \<in> set (line_issues rt pattern pp f x)"
  then show "fst (snd (issue_triple y)) = Suc (fst x)"
    by (auto simp: line_issues_def issue_triple_def issue_of_def split: if_splits)
qed

lemma file_issues_distinct:
  "distinct (map issue_triple (file_issues rt pattern pp tree f))"
  by (simp add: file_issues_def line_issues_distinct split: option.splits)

lemma pattern_issues_distinct:
  assumes "wf_tree tree" and "normal_path pp"
  shows "distinct (map issue_triple (pattern_issues rt pp tree pattern))"
  unfolding pattern_issues_def
proof (rule distinct_concat_key[where h = "replace_first (pp @ ''/'') []" and k = fst])
  show "distinct (map (replace_first (pp @ ''/'') [])
      (walkFiles pp tree (pat_fileExtensions pattern) 5 0))"
    using walk_distinct(1)[OF assms(1)] relative_path_inj[OF assms] by (simp add: distinct_map)
next
  fix x assume "x \<in> set (walkFiles pp tree (pat_fileExtensions pattern) 5 0)"
  show "distinct (map issue_triple (file_issues rt pattern pp tree x))"
    by (rule file_issues_distinct)
next
  fix x y assume "x \<in> set (walkFiles pp tree (pat_fileExtensions pattern) 5 0)"
    "y \<in> set (file_issues rt pattern pp tree x)"
  then show "fst (issue_triple y) = replace_first (pp @ ''/'') [] x"
    by (auto simp: file_issues_def line_issues_def issue_triple_def issue_of_def
        split: option.splits if_splits)
qed

lemma rule_sources_distinct:
  "list_all (\<lambda>rule. distinct (map (\<lambda>p. regex_source (pat_regex p)) (rule_patterns rule)))
     MIGRATION_RULES"
  by code_simp

lemma rule_issues_distinct:
  assumes "wf_tree tree" and "normal_path pp"
    and "applicable_rule rt framework currentMajor = Some rule"
  shows "distinct (map issue_triple (concat (map (pattern_issues rt pp tree) (rule_patterns rule))))"
proof (rule distinct_concat_key[where h = "\<lambda>p. regex_source (pat_regex p)" and k = "\<lambda>t. snd (snd t)"])
  from assms(3) have "rule \<in> set MIGRATION_RULES"
    by (auto simp: applicable_rule_def find_Some_iff split: if_splits)
  with rule_sources_distinct
  show "distinct (map (\<lambda>p. regex_source (pat_regex p)) (rule_patterns rule))"
    by (simp add: list_all_iff)
next
  fix x assume "x \<in> set (rule_patterns rule)"
  show "distinct (map issue_triple (pattern_issues rt pp tree x))"
    by (rule pattern_issues_distinct[OF assms(1,2)])
next
  fix x y assume "x \<in> set (rule_patterns rule)" "y \<in> set (pattern_issues rt pp tree x)"
  then show "snd (snd (issue_triple y)) = regex_source (pat_regex x)"
    by (auto simp: pattern_issues_def file_issues_def line_issues_def issue_triple_def issue_of_def
        split: option.splits if_splits)
qed

lemma sample_tree_wf: "wf_tree sample_tree"
  by (simp add: sample_tree_def plain_segment_def)

lemma sample_path_normal: "normal_path ''/p''"
  by (simp add: normal_path_def plain_segment_def)

lemma sample_tree_walk:
  "walkFiles ''/p'' sample_tree [''.svelte''] 5 0 = [''/p/src/App.svelte'']"
  by code_simp

lemma sample_tree_issues:
  "map issue_triple
     (res_issues (snd (detectMigration latin1 (\<lambda>_. 7) sample_tree (Some 4) ''/p'' ''demo'' ''SvelteKit'')))
   = [(''src/App.svelte'', 2, ''export'' @ [CHR 0x5C] @ ''s+let'' @ [CHR 0x5C] @ ''s+'')]"
  by code_simp

text \<open>
  C6. Whatever the regular expressions' cursors were, the issues of a scan are, pattern
  after pattern of the rule that applies and file after file of the walk, one issue for
  every line of a readable file on which the search of the pattern from the start of the
  line finds a match, however many matches the line holds. In a well-formed tree the walk
  returns no file twice, and below a normal project path no two issues have the same
  file, line and pattern. \<open>migrationNeeded\<close> holds exactly when there is an issue.
\<close>

theorem detectMigration_one_issue_per_line:
  "res_issues (snd (detectMigration rt cursor tree currentMajor projectPath projectName framework)) =
     (case applicable_rule rt framework currentMajor of
        None \<Rightarrow> []
      | Some rule \<Rightarrow>
          concat (map (\<lambda>pattern.
            concat (map (\<lambda>file.
              case readFileSync projectPath tree file of
                None \<Rightarrow> []
              | Some content \<Rightarrow>
                  concat (map (\<lambda>il. if regex_search rt (pat_regex pattern) (snd il) 0 \<noteq> None
                                     then [\<lparr> issue_type = pat_type pattern,
                                             issue_pattern = regex_source (pat_regex pattern),
                                             issue_file = replace_first (projectPath @ ''/'') [] file,
                                             issue_line = Suc (fst il),
                                             issue_message = pat_message pattern,
                                             issue_migration = pat_migration pattern \<rparr>]
                                     else [])
                            (enumerate 0 (split CHR 0x0A content))))
              (walkFiles projectPath tree (pat_fileExtensions pattern) 5 0)))
            (rule_patterns rule)))
   \<and> (wf_tree tree \<longrightarrow> distinct (walkFiles projectPath tree extensions 5 0))
   \<and> (wf_tree tree \<and> normal_path projectPath \<longrightarrow>
        distinct (map issue_triple
          (res_issues (snd (detectMigration rt cursor tree currentMajor projectPath projectName framework)))))
   \<and> (res_migrationNeeded
          (snd (detectMigration rt cursor tree currentMajor projectPath projectName framework))
        \<longleftrightarrow> res_issues
          (snd (detectMigration rt cursor tree currentMajor projectPath projectName framework)) \<noteq> [])"
proof -
  have li: "line_issues rt pattern projectPath f =
      (\<lambda>il. if regex_search rt (pat_regex pattern) (snd il) 0 \<noteq> None
            then [\<lparr> issue_type = pat_type pattern,
                    issue_pattern = regex_source (pat_regex pattern),
                    issue_file = replace_first (projectPath @ ''/'') [] f,
                    issue_line = Suc (fst il),
                    issue_message = pat_message pattern,
                    issue_migration = pat_migration pattern \<rparr>]
            else [])" for pattern f
    by (rule ext) (simp add: line_issues_def matches_line_def issue_of_def)
  have fi: "file_issues rt pattern projectPath tree =
      (\<lambda>file.
           case readFileSync projectPath tree file of
             None \<Rightarrow> []
           | Some content \<Rightarrow>
               concat (map (\<lambda>il. if regex_search rt (pat_regex pattern) (snd il) 0 \<noteq> None
                                  then [\<lparr> issue_type = pat_type pattern,
                                          issue_pattern = regex_source (pat_regex pattern),
                                          issue_file = replace_first (projectPath @ ''/'') [] file,
                                          issue_line = Suc (fst il),
                                          issue_message = pat_message pattern,
                                          issue_migration = pat_migration pattern \<rparr>]
                                  else [])
                         (enumerate 0 (split CHR 0x0A content))))" for pattern
    by (rule ext) (simp add: file_issues_def li split: option.splits)
  have unfold: "pattern_issues rt projectPath tree =
      (\<lambda>pattern.
         concat (map (\<lambda>file.
           case readFileSync projectPath tree file of
             None \<Rightarrow> []
           | Some content \<Rightarrow>
               concat (map (\<lambda>il. if regex_search rt (pat_regex pattern) (snd il) 0 \<noteq> None
                                  then [\<lparr> issue_type = pat_type pattern,
                                          issue_pattern = regex_source (pat_regex pattern),
                                          issue_file = replace_first (projectPath @ ''/'') [] file,
                                          issue_line = Suc (fst il),
                                          issue_message = pat_message pattern,
                                          issue_migration = pat_migration pattern \<rparr>]
                                  else [])
                         (enumerate 0 (split CHR 0x0A content))))
           (walkFiles projectPath tree (pat_fileExtensions pattern) 5 0)))"
    by (rule ext) (simp only: pattern_issues_def fi)
  have w: "wf_tree tree \<longrightarrow> distinct (walkFiles projectPath tree extensions 5 0)"
    using walk_distinct(1) by blast
  have "wf_tree tree \<and> normal_path projectPath \<longrightarrow>
        distinct (map issue_triple
          (res_issues (snd (detectMigration rt cursor tree currentMajor projectPath projectName framework))))"
    unfolding detectMigration_issues
    by (auto split: option.splits intro: rule_issues_distinct)
  then show ?thesis
    using detectMigration_issues[of rt cursor tree currentMajor projectPath projectName framework]
      detectMigration_needed[of rt cursor tree currentMajor projectPath projectName framework] w
    unfolding unfold by simp
qed

text \<open>
  A Svelte 4 project whose component has a line with two \<open>export let\<close>: one issue,
  for line 2, and a migration is needed.
\<close>

theorem detectMigration_one_issue_per_line_witness:
  "wf_tree sample_tree \<and> normal_path ''/p''
   \<and> map issue_triple
       (res_issues (snd (detectMigration latin1 (\<lambda>_. 7) sample_tree (Some 4) ''/p'' ''demo'' ''SvelteKit'')))
     = [(''src/App.svelte'', 2, ''export'' @ [CHR 0x5C] @ ''s+let'' @ [CHR 0x5C] @ ''s+'')]
   \<and> distinct (walkFiles ''/p'' sample_tree [''.svelte''] 5 0)
   \<and> distinct (map issue_triple
       (res_issues (snd (detectMigration latin1 (\<lambda>_. 7) sample_tree (Some 4) ''/p'' ''demo'' ''SvelteKit''))))
   \<and> res_migrationNeeded
       (snd (detectMigration latin1 (\<lambda>_. 7) sample_tree (Some 4) ''/p'' ''demo'' ''SvelteKit''))"
proof -
  note t = detectMigration_one_issue_per_line[of latin1 "\<lambda>_. 7" sample_tree "Some 4" "''/p''"
      "''demo''" "''SvelteKit''" "[''.svelte'']"]
  have w: "distinct (walkFiles ''/p'' sample_tree [''.svelte''] 5 0)"
    using t sample_tree_wf by blast
  have d: "distinct (map issue_triple
       (res_issues (snd (detectMigration latin1 (\<lambda>_. 7) sample_tree (Some 4) ''/p'' ''demo'' ''SvelteKit''))))"
    using t sample_tree_wf sample_path_normal by blast
  have "res_issues (snd (detectMigration latin1 (\<lambda>_. 7) sample_tree (Some 4) ''/p'' ''demo'' ''SvelteKit'')) \<noteq> []"
    using sample_tree_issues by auto
  then have n: "res_migrationNeeded
      (snd (detectMigration latin1 (\<lambda>_. 7) sample_tree (Some 4) ''/p'' ''demo'' ''SvelteKit''))"
    using t by blast
  from sample_tree_wf sample_path_normal sample_tree_issues w d n show ?thesis by blast
qed

text \<open>
  C10. Every path the walk returns, and the file of every issue of a scan, is the path
  of an entry that is not a directory, reached from the top of the tree through names
  none of which starts with a dot: an entry whose name starts with a dot is passed over,
  file or directory. In a well-formed tree below a normal project path, the name reported
  for a walked file, and so the file of every issue, has no component that starts with a
  dot.
\<close>

theorem walkFiles_skips_hidden_entries:
  "(\<forall>f \<in> set (walkFiles projectPath tree extensions maxDepth depth).
      \<exists>names. file_at tree names \<and> list_all (\<lambda>n. \<not> startsWith n ''.'') names
        \<and> f = foldl path_join projectPath names)
   \<and> (\<forall>i \<in> set (res_issues
          (snd (detectMigration rt cursor tree currentMajor projectPath projectName framework))).
        \<exists>names. file_at tree names \<and> list_all (\<lambda>n. \<not> startsWith n ''.'') names
          \<and> issue_file i =
              replace_first (projectPath @ ''/'') [] (foldl path_join projectPath names))
   \<and> (wf_tree tree \<and> normal_path projectPath \<longrightarrow>
        (\<forall>f \<in> set (walkFiles projectPath tree extensions maxDepth depth).
           \<not> hidden_component (replace_first (projectPath @ ''/'') [] f))
        \<and> (\<forall>i \<in> set (res_issues
              (snd (detectMigration rt cursor tree currentMajor projectPath projectName framework))).
             \<not> hidden_component (issue_file i)))"
proof (intro conjI ballI impI)
  fix f assume "f \<in> set (walkFiles projectPath tree extensions maxDepth depth)"
  from walk_components(1)[OF this]
  show "\<exists>names. file_at tree names \<and> list_all (\<lambda>n. \<not> startsWith n ''.'') names
      \<and> f = foldl path_join projectPath names"
    by (simp add: visible_names_def path_below_def)
next
  fix i assume "i \<in> set (res_issues
      (snd (detectMigration rt cursor tree currentMajor projectPath projectName framework)))"
  from issue_origin[OF this] obtain pattern f n where
    f: "f \<in> set (walkFiles projectPath tree (pat_fileExtensions pattern) 5 0)"
    and i: "i = issue_of pattern projectPath f n" by auto
  from walk_components(1)[OF f] obtain names where
    "file_at tree names" "visible_names names" "f = path_below projectPath names" by auto
  then have "file_at tree names \<and> list_all (\<lambda>n. \<not> startsWith n ''.'') names
      \<and> issue_file i = replace_first (projectPath @ ''/'') [] (foldl path_join projectPath names)"
    by (simp add: i issue_of_def visible_names_def path_below_def)
  then show "\<exists>names. file_at tree names \<and> list_all (\<lambda>n. \<not> startsWith n ''.'') names
      \<and> issue_file i = replace_first (projectPath @ ''/'') [] (foldl path_join projectPath names)"
    by blast
next
  fix f assume "wf_tree tree \<and> normal_path projectPath"
    and "f \<in> set (walkFiles projectPath tree extensions maxDepth depth)"
  then show "\<not> hidden_component (replace_first (projectPath @ ''/'') [] f)"
    using walkFiles_not_hidden by blast
next
  fix i assume wf: "wf_tree tree \<and> normal_path projectPath"
    and "i \<in> set (res_issues
      (snd (detectMigration rt cursor tree currentMajor projectPath projectName framework)))"
  from issue_origin[OF this(2)] obtain pattern f n where
    f: "f \<in> set (walkFiles projectPath tree (pat_fileExtensions pattern) 5 0)"
    and i: "i = issue_of pattern projectPath f n" by auto
  from walkFiles_not_hidden[OF _ _ f] wf show "\<not> hidden_component (issue_file i)"
    by (simp add: i issue_of_def)
qed

text \<open>
  The sample tree holds \<open>src/.Hidden.svelte\<close> and \<open>.cache/Old.svelte\<close>, both with a
  matching line: the walk returns the visible component only, and the one issue is for
  it.
\<close>

theorem walkFiles_skips_hidden_entries_witness:
  "wf_tree sample_tree \<and> normal_path ''/p''
   \<and> file_at sample_tree [''src'', ''.Hidden.svelte'']
   \<and> file_at sample_tree [''.cache'', ''Old.svelte'']
   \<and> file_at sample_tree [''src'', ''App.svelte'']
   \<and> foldl path_join ''/p'' [''src'', ''App.svelte''] = ''/p/src/App.svelte''
   \<and> walkFiles ''/p'' sample_tree [''.svelte''] 5 0 = [''/p/src/App.svelte'']
   \<and> \<not> hidden_component (replace_first (''/p'' @ ''/'') [] ''/p/src/App.svelte'')
   \<and> map issue_file
       (res_issues (snd (detectMigration latin1 (\<lambda>_. 7) sample_tree (Some 4) ''/p'' ''demo'' ''SvelteKit'')))
     = [''src/App.svelte'']
   \<and> \<not> hidden_component ''src/App.svelte''
   \<and> hidden_component ''src/.Hidden.svelte''"
proof -
  note t = walkFiles_skips_hidden_entries[of "''/p''" sample_tree "[''.svelte'']" 5 0 latin1
      "\<lambda>_. 7" "Some 4" "''demo''" "''SvelteKit''"]
  have files: "map issue_file
       (res_issues (snd (detectMigration latin1 (\<lambda>_. 7) sample_tree (Some 4) ''/p'' ''demo'' ''SvelteKit'')))
     = [''src/App.svelte'']"
    using sample_tree_issues by (auto simp: issue_triple_def)
  have "\<forall>f \<in> set (walkFiles ''/p'' sample_tree [''.svelte''] 5 0).
      \<not> hidden_component (replace_first (''/p'' @ ''/'') [] f)"
    using t sample_tree_wf sample_path_normal by blast
  then have a: "\<not> hidden_component (replace_first (''/p'' @ ''/'') [] ''/p/src/App.svelte'')"
    unfolding sample_tree_walk by simp
  have "\<forall>i \<in> set (res_issues
      (snd (detectMigration latin1 (\<lambda>_. 7) sample_tree (Some 4) ''/p'' ''demo'' ''SvelteKit''))).
      \<not> hidden_component (issue_file i)"
    using t sample_tree_wf sample_path_normal by blast
  then have "\<forall>f \<in> set (map issue_file (res_issues
      (snd (detectMigration latin1 (\<lambda>_. 7) sample_tree (Some 4) ''/p'' ''demo'' ''SvelteKit'')))).
      \<not> hidden_component f" by simp
  then have b: "\<not> hidden_component ''src/App.svelte''"
    unfolding files by simp
  have c: "hidden_component ''src/.Hidden.svelte''" by code_simp
  have d: "file_at sample_tree [''src'', ''.Hidden.svelte'']"
    "file_at sample_tree [''.cache'', ''Old.svelte'']"
    "file_at sample_tree [''src'', ''App.svelte'']"
    by (simp_all add: sample_tree_def)
  have e: "foldl path_join ''/p'' [''src'', ''App.svelte''] = ''/p/src/App.svelte''"
    by code_simp
  from sample_tree_wf sample_path_normal d e sample_tree_walk a files b c show ?thesis by blast
qed

section \<open>Properties of the multi-project scans\<close>

lemma audit_loop_filter:
  "audit_loop net installed n ps results =
     results @ filter (\<lambda>r. live_vulnerabilities r \<noteq> [])
       (map (\<lambda>np. liveAuditProject (net (fst np)) installed (info_path (snd np))
                     (info_name (snd np)) (info_language (snd np)))
          (enumerate n ps))"
  by (induction ps arbitrary: n results) (simp_all add: Let_def)

lemma map_detect_member:
  "r \<in> set (map_detect rt fs gfm cursor ps) \<Longrightarrow>
   \<exists>p \<in> set ps. \<exists>c. r = snd (detectMigration rt c (fs (info_path p))
       (gfm (info_path p) (info_framework p)) (info_path p) (info_name p) (info_framework p))"
proof (induction ps arbitrary: cursor)
  case Nil
  then show ?case by simp
next
  case (Cons p ps)
  obtain c' r' where d: "detectMigration rt cursor (fs (info_path p))
      (gfm (info_path p) (info_framework p)) (info_path p) (info_name p) (info_framework p) = (c', r')"
    by (cases "detectMigration rt cursor (fs (info_path p))
      (gfm (info_path p) (info_framework p)) (info_path p) (info_name p) (info_framework p)")
  from Cons.prems d consider "r = r'" | "r \<in> set (map_detect rt fs gfm c' ps)" by auto
  then show ?case
  proof cases
    case 1
    with d have "r = snd (detectMigration rt cursor (fs (info_path p))
      (gfm (info_path p) (info_framework p)) (info_path p) (info_name p) (info_framework p))"
      by simp
    then show ?thesis by auto
  next
    case 2
    from Cons.IH[OF this] show ?thesis by auto
  qed
qed

lemma scan_projects_names:
  "map entry_project (scan_projects g f acc ps) =
     map entry_project acc @ map info_name (filter (\<lambda>p. g p \<noteq> None) ps)"
  by (induction ps arbitrary: acc) (auto simp: make_entry_def Let_def split: option.splits)

text \<open>
  C5, as the claim words it, fails for the cache write: a project with no outdated
  package has an entry among those handed to \<open>writeCache\<close>.
\<close>

theorem cache_write_zero_outdated_counterexample:
  "main [clean_project] nothing_outdated never_major
     = CacheWritten [make_entry never_major clean_project []] 0
   \<and> entry_project (make_entry never_major clean_project []) = ''lib''
   \<and> entry_outdatedCount (make_entry never_major clean_project []) = 0"
  by (simp add: main_def Let_def make_entry_def clean_project_def nothing_outdated_def)

text \<open>
  C5, amended. The live vulnerability scan returns the results of the projects, in
  order, that have a vulnerability, and the migration scan those that have an issue;
  the checker hands to the cache write one entry for every project whose outdated
  packages could be listed, whatever their number, and counts as alerts the entries with
  outdated packages.
\<close>

theorem batch_summaries_actionable:
  "liveAuditAllProjects net installed projects =
     filter (\<lambda>r. live_vulnerabilities r \<noteq> [])
       (map (\<lambda>np. liveAuditProject (net (fst np)) installed (info_path (snd np))
                     (info_name (snd np)) (info_language (snd np)))
          (enumerate 0 projects))
   \<and> (\<forall>r \<in> set (liveAuditAllProjects net installed projects). live_vulnerabilities r \<noteq> [])
   \<and> (\<forall>r \<in> set (detectAllMigrations rt fs getFrameworkMajor cursor projects).
         res_migrationNeeded r \<and> res_issues r \<noteq> [])
   \<and> (main projects getOutdated isMajorUpdate = CacheWritten entries alerts \<longrightarrow>
         map entry_project entries = map info_name (filter (\<lambda>p. getOutdated p \<noteq> None) projects)
         \<and> alerts = length (filter (\<lambda>e. entry_outdatedCount e > 0) entries))"
proof -
  have a: "liveAuditAllProjects net installed projects =
     filter (\<lambda>r. live_vulnerabilities r \<noteq> [])
       (map (\<lambda>np. liveAuditProject (net (fst np)) installed (info_path (snd np))
                     (info_name (snd np)) (info_language (snd np)))
          (enumerate 0 projects))"
    by (simp add: liveAuditAllProjects_def audit_loop_filter)
  then have b: "\<forall>r \<in> set (liveAuditAllProjects net installed projects). live_vulnerabilities r \<noteq> []"
    by simp
  have c: "\<forall>r \<in> set (detectAllMigrations rt fs getFrameworkMajor cursor projects).
         res_migrationNeeded r \<and> res_issues r \<noteq> []"
  proof
    fix r assume "r \<in> set (detectAllMigrations rt fs getFrameworkMajor cursor projects)"
    then have n: "res_migrationNeeded r"
      and "r \<in> set (map_detect rt fs getFrameworkMajor cursor projects)"
      by (simp_all add: detectAllMigrations_def)
    from map_detect_member[OF this(2)] n show "res_migrationNeeded r \<and> res_issues r \<noteq> []"
      using detectMigration_needed by blast
  qed
  have d: "main projects getOutdated isMajorUpdate = CacheWritten entries alerts \<longrightarrow>
         map entry_project entries = map info_name (filter (\<lambda>p. getOutdated p \<noteq> None) projects)
         \<and> alerts = length (filter (\<lambda>e. entry_outdatedCount e > 0) entries)"
    by (auto simp: main_def Let_def scan_projects_names split: if_splits)
  from a b c d show ?thesis by blast
qed

text \<open>
  Two projects, the first with an advisory and a component to migrate, the second with
  neither: the two scans return the first only, the cache write has both.
\<close>

theorem batch_summaries_actionable_witness:
  "map live_project (liveAuditAllProjects sample_net sample_installed [sample_project, clean_project])
     = [''app'']
   \<and> map res_project
       (detectAllMigrations latin1 sample_fs (\<lambda>_ _. Some 4) (\<lambda>_. 0) [sample_project, clean_project])
     = [''app'']
   \<and> (case main [sample_project, clean_project] (\<lambda>_. Some []) (\<lambda>_ _. False) of
        Exited \<Rightarrow> []
      | CacheWritten entries alerts \<Rightarrow> map entry_project entries) = [''app'', ''lib'']"
proof -
  note t = batch_summaries_actionable[of sample_net sample_installed "[sample_project, clean_project]"
      latin1 sample_fs "\<lambda>_ _. Some 4" "\<lambda>_. 0" "\<lambda>_. Some []" "\<lambda>_ _. False"]
  have live: "map live_project
      (liveAuditAllProjects sample_net sample_installed [sample_project, clean_project]) = [''app'']"
    by code_simp
  have mig: "map res_project
       (detectAllMigrations latin1 sample_fs (\<lambda>_ _. Some 4) (\<lambda>_. 0) [sample_project, clean_project])
     = [''app'']"
    by code_simp
  obtain entries alerts where
    m: "main [sample_project, clean_project] (\<lambda>_. Some []) (\<lambda>_ _. False) = CacheWritten entries alerts"
    by (simp add: main_def Let_def)
  with t[of entries alerts] have "map entry_project entries = [''app'', ''lib'']"
    by (simp add: sample_project_def clean_project_def)
  with m live mig show ?thesis by simp
qed

end
